theory Spec2Isabelle
  imports Main "HOL-Library.Word"
begin

section \<open>Strings and numbers of the JavaScript runtime\<close>

text \<open>
  A JavaScript string is a sequence of UTF-16 code units; \<open>length\<close>, \<open>substring\<close>,
  \<open>replace\<close>, \<open>trim\<close> and the regular expressions of the crawler all work on code
  units, and the date texts of the crawled sites contain CJK characters. A string is
  therefore a list of 16-bit words. \<open>ascii\<close> embeds an ASCII literal.
\<close>

type_synonym jsstring = "16 word list"

definition ascii :: "string \<Rightarrow> jsstring" where
  "ascii s = map (\<lambda>c. of_nat (of_char c)) s"

text \<open>
  A page number is a safe integer: an integer \<open>n\<close> with \<open>Number.isSafeInteger(n)\<close>, that
  is of magnitude at most \<open>2^53 - 1\<close>. On safe integers the floating-point arithmetic of
  the pagination loop is the arithmetic of the integers: \<open>i <= maxPages\<close> compares exactly,
  and \<open>i++\<close> is exact for every \<open>i\<close> up to the largest safe integer (from \<open>2^53\<close> on it
  can leave \<open>i\<close> unchanged). The other values of the TypeScript type \<open>number\<close> (fractions,
  NaN, the infinities, integers of larger magnitude) are not page numbers of this model.
\<close>

typedef safe_integer = "{i :: int. - 9007199254740991 \<le> i \<and> i \<le> 9007199254740991}"
  morphisms int_of safe
  by (rule exI [of _ 0]) simp

text \<open>
  \<open>Number.prototype.toString\<close> on an integer below \<open>10^21\<close>: decimal digits, with a leading
  minus sign for a negative number.
\<close>

fun digits :: "nat \<Rightarrow> jsstring" where
  "digits n = (if n < 10 then [of_nat (48 + n)] else digits (n div 10) @ [of_nat (48 + n mod 10)])"

declare digits.simps [simp del]

definition toString :: "int \<Rightarrow> jsstring" where
  "toString i = (if i < 0 then ascii ''-'' @ digits (nat (- i)) else digits (nat i))"

text \<open>
  \<open>String.prototype.replace\<close> with a string pattern: only the first occurrence of the
  pattern is replaced; without an occurrence the string is returned as it is. (The
  replacement strings used here are decimal numbers, which contain no \<open>$\<close> pattern.)
\<close>

fun replace :: "jsstring \<Rightarrow> jsstring \<Rightarrow> jsstring \<Rightarrow> jsstring" where
  "replace pat rep [] = (if pat = [] then rep else [])"
| "replace pat rep (c # cs) =
     (if take (length pat) (c # cs) = pat then rep @ drop (length pat) (c # cs)
      else c # replace pat rep cs)"

section \<open>Site configuration (src/config/types.ts)\<close>

text \<open>An optional field \<open>f?: T\<close> is a \<open>T option\<close>; \<open>None\<close> is \<open>undefined\<close>.\<close>

record ListPageConfig =
  articleSelector :: jsstring
  list_titleSelector :: "jsstring option"
  linkSelector :: jsstring
  list_dateSelector :: "jsstring option"
  descriptionSelector :: "jsstring option"

record DetailPageConfig =
  detail_titleSelector :: jsstring
  contentSelector :: jsstring
  authorSelector :: "jsstring option"
  detail_dateSelector :: "jsstring option"
  useReadability :: "bool option"

record PaginationConfig =
  enabled :: bool
  maxPages :: "safe_integer option"
  nextSelector :: "jsstring option"
  urlPattern :: "jsstring option"
  startPage :: "safe_integer option"

record WebsiteConfig =
  name :: jsstring
  baseUrl :: jsstring
  url :: jsstring
  listPage :: ListPageConfig
  detailPage :: DetailPageConfig
  pagination :: "PaginationConfig option"
  delay :: "int option"
  userAgent :: "jsstring option"
  maxArticles :: "int option"
  site_enabled :: "bool option"

text \<open>
  JavaScript truthiness, as the conditions and the \<open>||\<close> defaults of the source use it:
  an absent value, the number 0 and the empty string are falsy.
\<close>

definition truthy_num :: "int option \<Rightarrow> bool" where
  "truthy_num v = (case v of None \<Rightarrow> False | Some n \<Rightarrow> n \<noteq> 0)"

definition truthy_str :: "jsstring option \<Rightarrow> bool" where
  "truthy_str v = (case v of None \<Rightarrow> False | Some s \<Rightarrow> s \<noteq> [])"

definition page_or :: "safe_integer option \<Rightarrow> int \<Rightarrow> int" where
  "page_or v d = (case v of None \<Rightarrow> d | Some n \<Rightarrow> if int_of n = 0 then d else int_of n)"

definition str_or :: "jsstring option \<Rightarrow> jsstring \<Rightarrow> jsstring" where
  "str_or v d = (case v of None \<Rightarrow> d | Some s \<Rightarrow> if s = [] then d else s)"

section \<open>Pagination resolver (CrawlerEngine.getPageUrls)\<close>

definition page_placeholder :: jsstring where
  "page_placeholder = ascii ''{page}''"

text \<open>
  The \<open>for (let i = startPage; i <= maxPages; i++)\<close> loop, pushing onto \<open>urls\<close>. The
  resolver runs it from a safe integer to a safe integer, so \<open>i\<close> never exceeds \<open>2^53\<close>
  and every \<open>i++\<close> is exact.
\<close>

function pageLoop :: "jsstring \<Rightarrow> int \<Rightarrow> int \<Rightarrow> jsstring list \<Rightarrow> jsstring list" where
  "pageLoop pat i maxP urls =
     (if i \<le> maxP
      then pageLoop pat (i + 1) maxP (urls @ [replace page_placeholder (toString i) pat])
      else urls)"
  by pat_completeness auto
termination
  by (relation "measure (\<lambda>(pat, i, maxP, urls). nat (maxP + 1 - i))") auto

declare pageLoop.simps [simp del]

definition getPageUrls :: "WebsiteConfig \<Rightarrow> jsstring list" where
  "getPageUrls config =
     (case pagination config of
        None \<Rightarrow> [url config]
      | Some p \<Rightarrow>
          if \<not> enabled p then [url config]
          else if truthy_str (urlPattern p)
          then pageLoop (the (urlPattern p)) (page_or (startPage p) 1) (page_or (maxPages p) 1) []
          else [url config])"




text \<open>A site with a page pattern, used to compare the definitions.\<close>

definition paged_site :: "int \<Rightarrow> int \<Rightarrow> WebsiteConfig" where
  "paged_site s m =
     \<lparr> name = ascii ''site'', baseUrl = ascii ''https://e.com'', url = ascii ''https://e.com/news'',
       listPage = \<lparr> articleSelector = ascii ''.item'', list_titleSelector = None,
                    linkSelector = ascii ''a'', list_dateSelector = None,
                    descriptionSelector = None \<rparr>,
       detailPage = \<lparr> detail_titleSelector = ascii ''h1'', contentSelector = ascii ''.body'',
                      authorSelector = None, detail_dateSelector = None,
                      useReadability = None \<rparr>,
       pagination = Some \<lparr> enabled = True, maxPages = Some (safe m), nextSelector = None,
                           urlPattern = Some (ascii ''/news?p={page}''), startPage = Some (safe s) \<rparr>,
       delay = None, userAgent = None, maxArticles = None, site_enabled = None \<rparr>"

section \<open>Date normalizer (CrawlerEngine.parseDate)\<close>

text \<open>
  White space as \<open>\s\<close> and \<open>String.prototype.trim\<close> understand it (ECMA-262 WhiteSpace
  and LineTerminator), on code units.
\<close>

definition is_space :: "16 word \<Rightarrow> bool" where
  "is_space c =
     (c = 0x09 \<or> c = 0x0A \<or> c = 0x0B \<or> c = 0x0C \<or> c = 0x0D \<or> c = 0x20 \<or> c = 0xA0
      \<or> c = 0x1680 \<or> (0x2000 \<le> c \<and> c \<le> 0x200A) \<or> c = 0x2028 \<or> c = 0x2029
      \<or> c = 0x202F \<or> c = 0x205F \<or> c = 0x3000 \<or> c = 0xFEFF)"

definition trim :: "jsstring \<Rightarrow> jsstring" where
  "trim s = rev (dropWhile is_space (rev (dropWhile is_space s)))"

definition is_digit :: "16 word \<Rightarrow> bool" where
  "is_digit c = (0x30 \<le> c \<and> c \<le> 0x39)"

text \<open>
  \<open>.replace(/\<dots>(\<dots>|\<dots>)[\<dots>:]/g, "")\<close>: every occurrence, from the left, of the two
  characters U+53D1 U+5E03 followed by U+65F6 U+95F4 or by U+65E5 U+671F and then by a
  full-width (U+FF1A) or an ASCII colon is removed. Every match is five code units long.
\<close>

definition is_publish_prefix :: "16 word \<Rightarrow> 16 word \<Rightarrow> 16 word \<Rightarrow> 16 word \<Rightarrow> 16 word \<Rightarrow> bool" where
  "is_publish_prefix a b c d e =
     (a = 0x53D1 \<and> b = 0x5E03 \<and> ((c = 0x65F6 \<and> d = 0x95F4) \<or> (c = 0x65E5 \<and> d = 0x671F))
      \<and> (e = 0xFF1A \<or> e = 0x3A))"

fun remove_prefixes :: "jsstring \<Rightarrow> jsstring" where
  "remove_prefixes (a # b # c # d # e # rest) =
     (if is_publish_prefix a b c d e then remove_prefixes rest
      else a # remove_prefixes (b # c # d # e # rest))"
| "remove_prefixes s = s"

text \<open>
  \<open>.replace(/[\<cdot>\s]+$/, "")\<close>: the first position from which only middle dots (U+00B7)
  and white space follow up to the end of the string starts the match, so the longest
  such suffix is removed.
\<close>

definition is_trailing_noise :: "16 word \<Rightarrow> bool" where
  "is_trailing_noise c = (c = 0xB7 \<or> is_space c)"

definition remove_trailing :: "jsstring \<Rightarrow> jsstring" where
  "remove_trailing s = rev (dropWhile is_trailing_noise (rev s))"

text \<open>
  The pattern \<open>(\d{4})[Y/-](\d{1,2})[M/-](\d{1,2})[D]?\<close>, where Y, M and D are the year
  (U+5E74), month (U+6708) and day (U+65E5) characters. \<open>match_day\<close>, \<open>match_month\<close> and
  \<open>match_at\<close> match it at the head of a string, with the greedy \<open>\d{1,2}\<close> tried with two
  digits first and then with one; \<open>date_match\<close> is the unanchored search of
  \<open>String.prototype.match\<close>, which takes the leftmost position that matches. The result
  is the three capture groups.
\<close>

definition is_year_sep :: "16 word \<Rightarrow> bool" where
  "is_year_sep c = (c = 0x5E74 \<or> c = 0x2F \<or> c = 0x2D)"

definition is_month_sep :: "16 word \<Rightarrow> bool" where
  "is_month_sep c = (c = 0x6708 \<or> c = 0x2F \<or> c = 0x2D)"

fun match_day :: "jsstring \<Rightarrow> jsstring option" where
  "match_day (d1 # d2 # rest) =
     (if is_digit d1 \<and> is_digit d2 then Some [d1, d2]
      else if is_digit d1 then Some [d1] else None)"
| "match_day [d1] = (if is_digit d1 then Some [d1] else None)"
| "match_day [] = None"

fun match_month1 :: "jsstring \<Rightarrow> (jsstring \<times> jsstring) option" where
  "match_month1 (m1 # s # rest) =
     (if is_digit m1 \<and> is_month_sep s
      then (case match_day rest of Some d \<Rightarrow> Some ([m1], d) | None \<Rightarrow> None)
      else None)"
| "match_month1 rest = None"

fun match_month :: "jsstring \<Rightarrow> (jsstring \<times> jsstring) option" where
  "match_month (m1 # m2 # s # rest) =
     (if is_digit m1 \<and> is_digit m2 \<and> is_month_sep s
      then (case match_day rest of
              Some d \<Rightarrow> Some ([m1, m2], d)
            | None \<Rightarrow> match_month1 (m1 # m2 # s # rest))
      else match_month1 (m1 # m2 # s # rest))"
| "match_month rest = match_month1 rest"

fun match_at :: "jsstring \<Rightarrow> (jsstring \<times> jsstring \<times> jsstring) option" where
  "match_at (y1 # y2 # y3 # y4 # s # rest) =
     (if is_digit y1 \<and> is_digit y2 \<and> is_digit y3 \<and> is_digit y4 \<and> is_year_sep s
      then (case match_month rest of
              Some (m, d) \<Rightarrow> Some ([y1, y2, y3, y4], m, d)
            | None \<Rightarrow> None)
      else None)"
| "match_at rest = None"

fun date_match :: "jsstring \<Rightarrow> (jsstring \<times> jsstring \<times> jsstring) option" where
  "date_match [] = match_at []"
| "date_match (c # cs) =
     (case match_at (c # cs) of Some g \<Rightarrow> Some g | None \<Rightarrow> date_match cs)"

text \<open>
  A \<open>Date\<close> object is either the Invalid Date (its time value is NaN) or denotes a
  calendar day, given by year, month and day; the time of day and the time zone are not
  modelled. The \<open>Date\<close> constructor on a string belongs to the JavaScript runtime, not
  to the crawler, so \<open>parseDate\<close> takes it as the parameter \<open>newDate\<close>.
\<close>

datatype jsdate = Invalid_Date | Date int int int

definition is_valid :: "jsdate \<Rightarrow> bool" where
  "is_valid d = (d \<noteq> Invalid_Date)"

definition parseDate :: "(jsstring \<Rightarrow> jsdate) \<Rightarrow> jsstring option \<Rightarrow> jsdate option" where
  "parseDate newDate dateStr =
     (if \<not> truthy_str dateStr then None
      else
        let cleaned = trim (remove_trailing (remove_prefixes (the dateStr)))
        in (case date_match cleaned of
              Some (y, m, d) \<Rightarrow> Some (newDate (y @ ascii ''-'' @ m @ ascii ''-'' @ d))
            | None \<Rightarrow>
                let date = newDate cleaned
                in if is_valid date then Some date else None))"

text \<open>
  A model of the runtime's constructor on the numeric form \<open>Y-M-D\<close> (a four-digit year,
  one or two digits for month and day), as Node.js reads it: the Invalid Date unless the
  month is in 1..12 and the day in 1..31, and a day past the end of its month runs over
  into the next month. This model recognises no other string. It is the instance at
  which the properties below are evaluated; properties of all inputs quantify over
  \<open>newDate\<close>.
\<close>

fun split_on :: "16 word \<Rightarrow> jsstring \<Rightarrow> jsstring list" where
  "split_on c [] = [[]]"
| "split_on c (x # xs) =
     (if x = c then [] # split_on c xs
      else (case split_on c xs of p # ps \<Rightarrow> (x # p) # ps | [] \<Rightarrow> [[x]]))"

definition decimal :: "jsstring \<Rightarrow> int" where
  "decimal s = foldl (\<lambda>n c. 10 * n + (uint c - 48)) 0 s"

definition is_field :: "jsstring \<Rightarrow> bool" where
  "is_field s = ((length s = 1 \<or> length s = 2) \<and> list_all is_digit s)"

definition leap_year :: "int \<Rightarrow> bool" where
  "leap_year y = (y mod 4 = 0 \<and> (y mod 400 = 0 \<or> y mod 100 \<noteq> 0))"

definition days_in_month :: "int \<Rightarrow> int \<Rightarrow> int" where
  "days_in_month y m =
     (if m = 2 then (if leap_year y then 29 else 28)
      else if m = 4 \<or> m = 6 \<or> m = 9 \<or> m = 11 then 30 else 31)"

definition node_Date :: "jsstring \<Rightarrow> jsdate" where
  "node_Date s =
     (case split_on 0x2D s of
        [ys, ms, ds] \<Rightarrow>
          if length ys = 4 \<and> list_all is_digit ys \<and> is_field ms \<and> is_field ds
          then
            let y = decimal ys; m = decimal ms; d = decimal ds
            in if 1 \<le> m \<and> m \<le> 12 \<and> 1 \<le> d \<and> d \<le> 31
               then (if d \<le> days_in_month y m then Date y m d
                     else Date y (m + 1) (d - days_in_month y m))
               else Invalid_Date
          else Invalid_Date
      | _ \<Rightarrow> Invalid_Date)"

text \<open>The date texts of the examples, as code units.\<close>

definition date_text_cjk :: jsstring where
  "date_text_cjk = ascii ''2024'' @ [0x5E74] @ ascii ''3'' @ [0x6708] @ ascii ''5'' @ [0x65E5]"

definition date_text_prefixed :: jsstring where
  "date_text_prefixed =
     [0x53D1, 0x5E03, 0x65F6, 0x95F4, 0xFF1A] @ ascii ''2023-11-02 '' @ [0xB7]"

section \<open>The rendered page, as the crawler sees it\<close>

text \<open>
  The headless browser is outside the crawler. What the crawler observes of it are the
  answers to its calls, and every call can throw; a thrown exception is the value
  \<open>Inl Error\<close> (the crawler never inspects the exception itself).

  An element handle answers \<open>evaluate(el => el.textContent)\<close>, \<open>getAttribute(name)\<close> and
  \<open>$(selector)\<close> (the first matching descendant, or null). A page answers
  \<open>$(selector)\<close> and \<open>$$(selector)\<close>; \<open>readability_text\<close> is the outcome of serialising
  the page and running Readability on it, that is \<open>parsed?.textContent\<close>.
\<close>

datatype error = Error

datatype element =
  Element (textContent: "error + jsstring option")
          (getAttribute: "jsstring \<Rightarrow> error + jsstring option")
          (query: "jsstring \<Rightarrow> error + element option")

datatype page =
  Page (query_selector: "jsstring \<Rightarrow> error + element option")
       (query_selector_all: "jsstring \<Rightarrow> error + element list")
       (readability_text: "error + jsstring option")

text \<open>
  One navigation: \<open>initBrowser\<close>, \<open>context.newPage()\<close>, \<open>page.goto(url)\<close> and, in the
  \<open>finally\<close> block, \<open>page.close()\<close>. \<open>Session_Failure\<close> is an exception of the first two,
  which no \<open>try\<close> of the crawler covers. \<open>Opened r closes\<close> is a page whose \<open>goto\<close> threw
  (\<open>r = Inl Error\<close>) or loaded (\<open>r = Inr page\<close>), and whose \<open>close()\<close> returns
  (\<open>closes\<close>) or throws.
\<close>

datatype nav = Session_Failure | Opened "error + page" bool

text \<open>
  The runtime of one crawl, over a state \<open>'w\<close> of the outside world that every
  navigation may change: \<open>visit\<close> navigates, \<open>newDate\<close> is the \<open>Date\<close> constructor on a
  string, \<open>now\<close> is \<open>new Date()\<close>, and \<open>resolve_url href base\<close> is
  \<open>new URL(href, base).href\<close>, which throws on a malformed URL.
\<close>

record 'w runtime =
  visit :: "jsstring \<Rightarrow> 'w \<Rightarrow> nav \<times> 'w"
  newDate :: "jsstring \<Rightarrow> jsdate"
  now :: "'w \<Rightarrow> jsdate"
  resolve_url :: "jsstring \<Rightarrow> jsstring \<Rightarrow> error + jsstring"

text \<open>\<open>evaluate((el) => el.textContent?.trim() || "")\<close> on a handle.\<close>

definition text_of :: "element \<Rightarrow> error + jsstring" where
  "text_of el =
     (case textContent el of
        Inl e \<Rightarrow> Inl e
      | Inr None \<Rightarrow> Inr []
      | Inr (Some t) \<Rightarrow> Inr (trim t))"

text \<open>
  \<open>$eval(selector, (el) => el.textContent?.trim() || "")\<close> on a handle: it throws when no
  element matches.
\<close>

definition eval_text :: "element \<Rightarrow> jsstring \<Rightarrow> error + jsstring" where
  "eval_text el selector =
     (case query el selector of
        Inl e \<Rightarrow> Inl e
      | Inr None \<Rightarrow> Inl Error
      | Inr (Some t) \<Rightarrow> text_of t)"

section \<open>List extractor (CrawlerEngine.crawlListPage)\<close>

record ListArticle =
  list_title :: jsstring
  list_url :: jsstring
  list_date :: "jsstring option"
  list_description :: "jsstring option"

definition starts_with :: "jsstring \<Rightarrow> jsstring \<Rightarrow> bool" where
  "starts_with s p = (take (length p) s = p)"

text \<open>The link of an item; the URL stays empty without a link element or a \<open>href\<close>.\<close>

definition extract_link :: "'w runtime \<Rightarrow> WebsiteConfig \<Rightarrow> element \<Rightarrow> error + jsstring" where
  "extract_link rt config el =
     (case query el (linkSelector (listPage config)) of
        Inl e \<Rightarrow> Inl e
      | Inr None \<Rightarrow> Inr []
      | Inr (Some linkEl) \<Rightarrow>
          (case getAttribute linkEl (ascii ''href'') of
             Inl e \<Rightarrow> Inl e
           | Inr href \<Rightarrow>
               if truthy_str href
               then (if starts_with (the href) (ascii ''http'') then Inr (the href)
                     else resolve_url rt (the href) (baseUrl config))
               else Inr []))"

text \<open>An optional field: its own \<open>try\<close> swallows the exception and leaves it unset.\<close>

definition optional_text :: "element \<Rightarrow> jsstring option \<Rightarrow> jsstring option" where
  "optional_text el selector =
     (if truthy_str selector
      then (case eval_text el (the selector) of Inl e \<Rightarrow> None | Inr t \<Rightarrow> Some t)
      else None)"

text \<open>The body of the per-item \<open>try\<close>, up to the test that decides the \<open>push\<close>.\<close>

definition extract_item :: "'w runtime \<Rightarrow> WebsiteConfig \<Rightarrow> element \<Rightarrow> error + ListArticle" where
  "extract_item rt config el =
     (case (if truthy_str (list_titleSelector (listPage config))
            then eval_text el (the (list_titleSelector (listPage config)))
            else text_of el) of
        Inl e \<Rightarrow> Inl e
      | Inr t \<Rightarrow>
          (case extract_link rt config el of
             Inl e \<Rightarrow> Inl e
           | Inr u \<Rightarrow>
               Inr \<lparr> list_title = t, list_url = u,
                     list_date = optional_text el (list_dateSelector (listPage config)),
                     list_description = optional_text el (descriptionSelector (listPage config)) \<rparr>))"

fun extract_items :: "'w runtime \<Rightarrow> WebsiteConfig \<Rightarrow> element list \<Rightarrow> ListArticle list \<Rightarrow> ListArticle list" where
  "extract_items rt config [] articles = articles"
| "extract_items rt config (el # rest) articles =
     extract_items rt config rest
       (case extract_item rt config el of
          Inl e \<Rightarrow> articles
        | Inr article \<Rightarrow>
            if list_title article \<noteq> [] \<and> list_url article \<noteq> [] then articles @ [article]
            else articles)"

definition crawlListPage ::
  "'w runtime \<Rightarrow> WebsiteConfig \<Rightarrow> jsstring \<Rightarrow> 'w \<Rightarrow> (error + ListArticle list) \<times> 'w" where
  "crawlListPage rt config pageUrl w =
     (case visit rt pageUrl w of
        (Session_Failure, w') \<Rightarrow> (Inl Error, w')
      | (Opened r closes, w') \<Rightarrow>
          (if closes
           then Inr (case r of
                       Inl e \<Rightarrow> []
                     | Inr pg \<Rightarrow>
                         (case query_selector_all pg (articleSelector (listPage config)) of
                            Inl e \<Rightarrow> []
                          | Inr els \<Rightarrow> extract_items rt config els []))
           else Inl Error, w'))"

section \<open>Detail extractor (CrawlerEngine.crawlDetailPage)\<close>

record Article =
  article_id :: "int option"
  title :: jsstring
  article_url :: jsstring
  source :: jsstring
  content :: "jsstring option"
  summary :: "jsstring option"
  author :: "jsstring option"
  publish_date :: "jsdate option"
  crawl_date :: "jsdate option"
  update_date :: "jsdate option"
  created_at :: "jsdate option"

text \<open>\<open>page.$(selector)\<close> followed by the text of the handle, inside one \<open>try\<close>.\<close>

definition page_text :: "page \<Rightarrow> jsstring \<Rightarrow> error + jsstring option" where
  "page_text pg selector =
     (case query_selector pg selector of
        Inl e \<Rightarrow> Inl e
      | Inr None \<Rightarrow> Inr None
      | Inr (Some el) \<Rightarrow> (case text_of el of Inl e \<Rightarrow> Inl e | Inr t \<Rightarrow> Inr (Some t)))"

text \<open>
  The title: the \<open>catch\<close> block alone assigns \<open>listArticle?.title || ""\<close>; without a
  matching element the title keeps its initial value \<open>""\<close>.
\<close>

definition extract_title :: "WebsiteConfig \<Rightarrow> ListArticle option \<Rightarrow> page \<Rightarrow> jsstring" where
  "extract_title config listArticle pg =
     (case page_text pg (detail_titleSelector (detailPage config)) of
        Inl e \<Rightarrow> (case listArticle of None \<Rightarrow> [] | Some la \<Rightarrow> list_title la)
      | Inr None \<Rightarrow> []
      | Inr (Some t) \<Rightarrow> t)"

text \<open>
  The body text. In Readability mode an exception is not caught here: it reaches the
  \<open>catch\<close> of the whole extraction. In selector mode the field stays unset without a
  matching element or after an exception.
\<close>

definition extract_content :: "WebsiteConfig \<Rightarrow> page \<Rightarrow> error + jsstring option" where
  "extract_content config pg =
     (if useReadability (detailPage config) = Some True
      then (case readability_text pg of
              Inl e \<Rightarrow> Inl e
            | Inr parsed \<Rightarrow> Inr (Some (str_or parsed [])))
      else Inr (case page_text pg (contentSelector (detailPage config)) of
                  Inl e \<Rightarrow> None
                | Inr t \<Rightarrow> t))"

definition extract_author :: "WebsiteConfig \<Rightarrow> page \<Rightarrow> jsstring option" where
  "extract_author config pg =
     (if truthy_str (authorSelector (detailPage config))
      then (case page_text pg (the (authorSelector (detailPage config))) of
              Inl e \<Rightarrow> None
            | Inr t \<Rightarrow> t)
      else None)"

text \<open>
  The publish date: first from the detail page, then, when the field is still unset,
  from the date text of the list page. A \<open>Date\<close> object is truthy even when invalid.
\<close>

definition extract_date :: "'w runtime \<Rightarrow> WebsiteConfig \<Rightarrow> ListArticle option \<Rightarrow> page \<Rightarrow> jsdate option" where
  "extract_date rt config listArticle pg =
     (let detail =
            (if truthy_str (detail_dateSelector (detailPage config))
             then (case page_text pg (the (detail_dateSelector (detailPage config))) of
                     Inl e \<Rightarrow> None
                   | Inr None \<Rightarrow> None
                   | Inr (Some dateText) \<Rightarrow> parseDate (newDate rt) (Some dateText))
             else None)
      in if detail = None \<and> truthy_str (case listArticle of None \<Rightarrow> None | Some la \<Rightarrow> list_date la)
         then parseDate (newDate rt) (list_date (the listArticle))
         else detail)"

text \<open>The extraction on a loaded page; \<open>None\<close> is the \<open>return null\<close> of the outer \<open>catch\<close>.\<close>

definition extract_article ::
  "'w runtime \<Rightarrow> WebsiteConfig \<Rightarrow> jsdate \<Rightarrow> jsstring \<Rightarrow> ListArticle option \<Rightarrow> page \<Rightarrow> Article option" where
  "extract_article rt config today articleUrl listArticle pg =
     (case extract_content config pg of
        Inl e \<Rightarrow> None
      | Inr c \<Rightarrow>
          Some \<lparr> article_id = None,
                 title = extract_title config listArticle pg,
                 article_url = articleUrl,
                 source = name config,
                 content = c,
                 summary = None,
                 author = extract_author config pg,
                 publish_date = extract_date rt config listArticle pg,
                 crawl_date = Some today,
                 update_date = None,
                 created_at = None \<rparr>)"

definition crawlDetailPage ::
  "'w runtime \<Rightarrow> WebsiteConfig \<Rightarrow> jsstring \<Rightarrow> ListArticle option \<Rightarrow> 'w
     \<Rightarrow> (error + Article option) \<times> 'w" where
  "crawlDetailPage rt config articleUrl listArticle w =
     (case visit rt articleUrl w of
        (Session_Failure, w') \<Rightarrow> (Inl Error, w')
      | (Opened r closes, w') \<Rightarrow>
          (if closes
           then Inr (case r of
                       Inl e \<Rightarrow> None
                     | Inr pg \<Rightarrow> extract_article rt config (now rt w') articleUrl listArticle pg)
           else Inl Error, w'))"

section \<open>Crawl orchestrator (CrawlerEngine.crawl)\<close>

text \<open>
  The state of one run: the accumulated batch, the state of the outside world, and a
  record of every navigation the run has made with its outcome (the crawler prints a
  line for each). The record is what the properties about fetched and visited pages
  speak of; the crawler never reads it.
\<close>

datatype event =
  Visit_List jsstring "error + ListArticle list"
| Fetch_Detail jsstring "error + Article option"

record 'w crawl_state =
  allArticles :: "Article list"
  requests :: "event list"
  world :: "'w"

text \<open>\<open>this.config.maxArticles && allArticles.length >= this.config.maxArticles\<close>\<close>

definition cap_reached :: "WebsiteConfig \<Rightarrow> Article list \<Rightarrow> bool" where
  "cap_reached config articles =
     (truthy_num (maxArticles config) \<and> int (length articles) \<ge> the (maxArticles config))"

text \<open>\<open>article && article.title && article.content\<close>\<close>

definition accepted :: "Article option \<Rightarrow> bool" where
  "accepted article =
     (case article of None \<Rightarrow> False | Some a \<Rightarrow> title a \<noteq> [] \<and> truthy_str (content a))"

text \<open>
  The inner loop over the candidates of one list page and the outer loop over the list
  pages. A loop returns \<open>Inr ()\<close> when it ends or breaks, and \<open>Inl Error\<close> when an
  exception leaves it.
\<close>

fun detailLoop ::
  "'w runtime \<Rightarrow> WebsiteConfig \<Rightarrow> ListArticle list \<Rightarrow> 'w crawl_state
     \<Rightarrow> (error + unit) \<times> 'w crawl_state" where
  "detailLoop rt config [] st = (Inr (), st)"
| "detailLoop rt config (listArticle # rest) st =
     (if cap_reached config (allArticles st) then (Inr (), st)
      else
        (case crawlDetailPage rt config (list_url listArticle) (Some listArticle) (world st) of
           (r, w') \<Rightarrow>
             let st' = st\<lparr> requests := requests st @ [Fetch_Detail (list_url listArticle) r],
                           world := w' \<rparr>
             in (case r of
                   Inl e \<Rightarrow> (Inl e, st')
                 | Inr article \<Rightarrow>
                     detailLoop rt config rest
                       (if accepted article
                        then st'\<lparr> allArticles := allArticles st' @ [the article] \<rparr>
                        else st'))))"

fun listLoop ::
  "'w runtime \<Rightarrow> WebsiteConfig \<Rightarrow> jsstring list \<Rightarrow> 'w crawl_state
     \<Rightarrow> (error + unit) \<times> 'w crawl_state" where
  "listLoop rt config [] st = (Inr (), st)"
| "listLoop rt config (pageUrl # rest) st =
     (if cap_reached config (allArticles st) then (Inr (), st)
      else
        (case crawlListPage rt config pageUrl (world st) of
           (r, w') \<Rightarrow>
             let st' = st\<lparr> requests := requests st @ [Visit_List pageUrl r], world := w' \<rparr>
             in (case r of
                   Inl e \<Rightarrow> (Inl e, st')
                 | Inr listArticles \<Rightarrow>
                     (case detailLoop rt config listArticles st' of
                        (Inl e, st'') \<Rightarrow> (Inl e, st'')
                      | (Inr u, st'') \<Rightarrow> listLoop rt config rest st''))))"

definition crawl ::
  "'w runtime \<Rightarrow> WebsiteConfig \<Rightarrow> 'w \<Rightarrow> (error + Article list) \<times> 'w crawl_state" where
  "crawl rt config w =
     (case listLoop rt config (getPageUrls config)
             \<lparr> allArticles = [], requests = [], world = w \<rparr> of
        (Inl e, st) \<Rightarrow> (Inl e, st)
      | (Inr u, st) \<Rightarrow> (Inr (allArticles st), st))"

text \<open>
  Reading the record of a run: the articles that detail extractions produced, in order;
  the completeness of an article in the words of the specification (title and content
  both non-empty, an unset content being empty); and the number of complete articles
  among those a record holds.
\<close>

fun produced :: "event list \<Rightarrow> Article list" where
  "produced [] = []"
| "produced (Fetch_Detail u (Inr (Some a)) # evs) = a # produced evs"
| "produced (ev # evs) = produced evs"

definition complete :: "Article \<Rightarrow> bool" where
  "complete a = (title a \<noteq> [] \<and> content a \<noteq> None \<and> content a \<noteq> Some [])"

definition accumulated :: "event list \<Rightarrow> nat" where
  "accumulated evs = length (filter complete (produced evs))"

text \<open>
  \<open>visits_all urls evs\<close>: the record \<open>evs\<close> consists, for each URL of \<open>urls\<close> in order, of
  the visit of that list page followed by one detail fetch for each of its candidates,
  in order, and of nothing else.
\<close>

fun detail_url :: "event \<Rightarrow> jsstring option" where
  "detail_url (Fetch_Detail u r) = Some u"
| "detail_url (Visit_List u r) = None"

fun visits_all :: "jsstring list \<Rightarrow> event list \<Rightarrow> bool" where
  "visits_all [] evs = (evs = [])"
| "visits_all (u # us) [] = False"
| "visits_all (u # us) (Fetch_Detail u' r # evs) = False"
| "visits_all (u # us) (Visit_List u' (Inl e) # evs) = False"
| "visits_all (u # us) (Visit_List u' (Inr las) # evs) =
     (u' = u \<and> map detail_url (take (length las) evs) = map (\<lambda>la. Some (list_url la)) las
      \<and> visits_all us (drop (length las) evs))"

section \<open>Steps and invariants of a run\<close>

text \<open>
  The state after the step of the inner loop that fetched \<open>u\<close> with outcome \<open>d\<close>, and
  after the step of the outer loop that visited \<open>u\<close> with outcome \<open>l\<close>; \<open>w'\<close> is the
  world the navigation left behind.
\<close>

definition after_fetch ::
  "'w crawl_state \<Rightarrow> jsstring \<Rightarrow> error + Article option \<Rightarrow> 'w \<Rightarrow> 'w crawl_state" where
  "after_fetch st u d w' =
     (let st' = st\<lparr> requests := requests st @ [Fetch_Detail u d], world := w' \<rparr>
      in case d of
           Inl e \<Rightarrow> st'
         | Inr article \<Rightarrow>
             if accepted article then st'\<lparr> allArticles := allArticles st' @ [the article] \<rparr>
             else st')"

definition after_visit ::
  "'w crawl_state \<Rightarrow> jsstring \<Rightarrow> error + ListArticle list \<Rightarrow> 'w \<Rightarrow> 'w crawl_state" where
  "after_visit st u l w' = st\<lparr> requests := requests st @ [Visit_List u l], world := w' \<rparr>"

text \<open>The batch holds exactly the complete articles among those produced so far.\<close>

definition batch_inv :: "'w crawl_state \<Rightarrow> bool" where
  "batch_inv st = (allArticles st = filter complete (produced (requests st)))"

text \<open>
  Every navigation of the record was made while fewer than \<open>m\<close> complete articles had
  been produced.
\<close>

definition within_cap :: "int \<Rightarrow> event list \<Rightarrow> bool" where
  "within_cap m evs = (\<forall>pre ev post. evs = pre @ ev # post \<longrightarrow> int (accumulated pre) < m)"

definition cap_inv :: "int \<Rightarrow> 'w crawl_state \<Rightarrow> bool" where
  "cap_inv m st =
     (batch_inv st \<and> int (length (allArticles st)) \<le> m \<and> within_cap m (requests st))"

section \<open>A small web to run the crawler on\<close>

text \<open>
  A site whose list page (any URL that does not start with \<open>/a\<close>) shows the given items,
  each an element with a text and a link, and whose detail pages (URLs starting with
  \<open>/a\<close>) show a title element \<open>h1\<close> and a body element \<open>.body\<close>. The world has no
  state. Links starting with \<open>http\<close> are absolute; \<open>resolve_url\<close> prefixes the base URL.
\<close>

definition leaf :: "string \<Rightarrow> element" where
  "leaf t = Element (Inr (Some (ascii t))) (\<lambda>a. Inr None) (\<lambda>s. Inr None)"

definition anchor :: "string \<Rightarrow> element" where
  "anchor h =
     Element (Inr (Some []))
       (\<lambda>a. if a = ascii ''href'' then Inr (Some (ascii h)) else Inr None) (\<lambda>s. Inr None)"

definition item :: "string \<Rightarrow> string \<Rightarrow> element" where
  "item t h =
     Element (Inr (Some (ascii t))) (\<lambda>a. Inr None)
       (\<lambda>s. if s = ascii ''a'' then Inr (Some (anchor h)) else Inr None)"

definition item_without_link :: "string \<Rightarrow> element" where
  "item_without_link t = leaf t"

definition list_page :: "element list \<Rightarrow> page" where
  "list_page els =
     Page (\<lambda>s. Inr None) (\<lambda>s. if s = ascii ''.item'' then Inr els else Inr []) (Inr None)"

definition detail_page :: "string \<Rightarrow> string \<Rightarrow> page" where
  "detail_page t b =
     Page (\<lambda>s. if s = ascii ''h1'' then Inr (Some (leaf t))
               else if s = ascii ''.body'' then Inr (Some (leaf b)) else Inr None)
          (\<lambda>s. Inr []) (Inr (Some (ascii b)))"

definition small_web :: "element list \<Rightarrow> (jsstring \<Rightarrow> page) \<Rightarrow> unit runtime" where
  "small_web els detail =
     \<lparr> visit = (\<lambda>u w. (Opened (Inr (if starts_with u (ascii ''http://e.com/a'') then detail u
                                     else list_page els)) True, w)),
       newDate = node_Date,
       now = (\<lambda>w. Date 2026 1 1),
       resolve_url = (\<lambda>href base. Inr (base @ href)) \<rparr>"

definition small_site :: "int option \<Rightarrow> WebsiteConfig" where
  "small_site cap =
     \<lparr> name = ascii ''site'', baseUrl = ascii ''http://e.com'', url = ascii ''http://e.com/news'',
       listPage = \<lparr> articleSelector = ascii ''.item'', list_titleSelector = None,
                    linkSelector = ascii ''a'', list_dateSelector = None,
                    descriptionSelector = None \<rparr>,
       detailPage = \<lparr> detail_titleSelector = ascii ''h1'', contentSelector = ascii ''.body'',
                      authorSelector = None, detail_dateSelector = None,
                      useReadability = None \<rparr>,
       pagination = None,
       delay = None, userAgent = None, maxArticles = cap, site_enabled = None \<rparr>"

definition five_items :: "element list" where
  "five_items =
     [item ''A'' ''/a1'', item ''B'' ''/a2'', item ''C'' ''http://e.com/a3'',
      item ''D'' ''/a4'', item ''E'' ''/a5'']"

text \<open>
  \<open>sample_run cap\<close>: every detail page is complete. \<open>mixed_run\<close>: the second detail page
  has an empty body and the fourth an empty title.
\<close>

definition sample_run :: "int option \<Rightarrow> (error + Article list) \<times> unit crawl_state" where
  "sample_run cap =
     crawl (small_web five_items (\<lambda>u. detail_page ''T'' ''B'')) (small_site cap) ()"

definition mixed_pages :: "jsstring \<Rightarrow> page" where
  "mixed_pages u =
     (if u = ascii ''http://e.com/a2'' then detail_page ''T'' []
      else if u = ascii ''http://e.com/a4'' then detail_page [] ''B''
      else detail_page ''T'' ''B'')"

definition mixed_run :: "(error + Article list) \<times> unit crawl_state" where
  "mixed_run = crawl (small_web five_items mixed_pages) (small_site None) ()"

section \<open>Reading a list page and a detail page, for the properties\<close>

text \<open>
  What one element of a list page contributes to the result of the list extractor: the
  item, or nothing.
\<close>

definition emitted :: "'w runtime \<Rightarrow> WebsiteConfig \<Rightarrow> element \<Rightarrow> ListArticle list" where
  "emitted rt config el =
     (case extract_item rt config el of
        Inl e \<Rightarrow> []
      | Inr article \<Rightarrow>
          if list_title article \<noteq> [] \<and> list_url article \<noteq> [] then [article] else [])"

text \<open>
  An element whose link cannot be resolved: no descendant matches \<open>linkSelector\<close>, or the
  matched element has no \<open>href\<close>.
\<close>

definition no_link :: "WebsiteConfig \<Rightarrow> element \<Rightarrow> bool" where
  "no_link config el =
     (case query el (linkSelector (listPage config)) of
        Inl e \<Rightarrow> False
      | Inr None \<Rightarrow> True
      | Inr (Some linkEl) \<Rightarrow> getAttribute linkEl (ascii ''href'') = Inr None)"

text \<open>
  An element with a resolvable title and link: its title text (of the descendant that
  \<open>titleSelector\<close> matches, or its own without a \<open>titleSelector\<close>) is not empty, and its
  link element has a non-empty \<open>href\<close> that is absolute or resolves against the base
  URL to a non-empty URL.
\<close>

definition has_title :: "WebsiteConfig \<Rightarrow> element \<Rightarrow> bool" where
  "has_title config el =
     (case list_titleSelector (listPage config) of
        None \<Rightarrow> (case text_of el of Inl e \<Rightarrow> False | Inr t \<Rightarrow> t \<noteq> [])
      | Some sel \<Rightarrow>
          if sel = [] then (case text_of el of Inl e \<Rightarrow> False | Inr t \<Rightarrow> t \<noteq> [])
          else (case query el sel of
                  Inr (Some d) \<Rightarrow> (case text_of d of Inl e \<Rightarrow> False | Inr t \<Rightarrow> t \<noteq> [])
                | _ \<Rightarrow> False))"

definition has_link :: "'w runtime \<Rightarrow> WebsiteConfig \<Rightarrow> element \<Rightarrow> bool" where
  "has_link rt config el =
     (case query el (linkSelector (listPage config)) of
        Inr (Some linkEl) \<Rightarrow>
          (case getAttribute linkEl (ascii ''href'') of
             Inr (Some href) \<Rightarrow>
               href \<noteq> [] \<and>
               (starts_with href (ascii ''http'') \<or>
                (case resolve_url rt href (baseUrl config) of Inl e \<Rightarrow> False | Inr u \<Rightarrow> u \<noteq> []))
           | _ \<Rightarrow> False)
      | _ \<Rightarrow> False)"

definition resolvable :: "'w runtime \<Rightarrow> WebsiteConfig \<Rightarrow> element \<Rightarrow> bool" where
  "resolvable rt config el = (has_title config el \<and> has_link rt config el)"

text \<open>The content of an article as its readers take it: \<open>article.content || ""\<close>.\<close>

definition content_text :: "Article \<Rightarrow> jsstring" where
  "content_text a = str_or (content a) []"

text \<open>
  A detail page without an element for the title selector, and the candidate that led
  to it.
\<close>

definition untitled_page :: page where
  "untitled_page =
     Page (\<lambda>s. if s = ascii ''.body'' then Inr (Some (leaf ''Body text'')) else Inr None)
          (\<lambda>s. Inr []) (Inr (Some (ascii ''Body text'')))"

definition headline :: ListArticle where
  "headline = \<lparr> list_title = ascii ''Headline'', list_url = ascii ''http://e.com/a1'',
                 list_date = None, list_description = None \<rparr>"

text \<open>
  A list page of three items, the second of which has no link, and a detail page whose
  body text has white space around it.
\<close>

definition three_items :: "element list" where
  "three_items = [item ''A'' ''/a1'', item_without_link ''B'', item ''C'' ''http://e.com/a3'']"

definition padded_page :: page where
  "padded_page = detail_page ''T'' '' Body ''"

text \<open>The small site in Readability mode.\<close>

definition readable_site :: WebsiteConfig where
  "readable_site =
     (small_site None)\<lparr> detailPage := (detailPage (small_site None))\<lparr> useReadability := Some True \<rparr> \<rparr>"

section \<open>Summarization client (src/ai/qwen.ts)\<close>

record AIService =
  apiKey :: jsstring
  apiUrl :: jsstring
  model :: jsstring

text \<open>
  The outcome of one \<open>POST\<close> to the summarization API, as \<open>generateSummary\<close> tells
  outcomes apart: a response whose \<open>output.text\<close> is read, an error whose response
  status is 429, or any other exception (a malformed response among them).
\<close>

datatype response = Summary_Text jsstring | Rate_Limited | Failed

text \<open>
  The API, over a state \<open>'b\<close> of its own that every call may change, and the
  \<open>toLocaleString("zh-CN")\<close> of the runtime.
\<close>

record 'b backend =
  post :: "jsstring \<Rightarrow> 'b \<Rightarrow> response \<times> 'b"
  toLocaleString :: "jsdate \<Rightarrow> jsstring"

definition title_label :: jsstring where
  "title_label = [0x6587, 0x7AE0, 0x6807, 0x9898, 0xFF1A]"

definition author_label :: jsstring where
  "author_label = [0x4F5C, 0x8005, 0xFF1A]"

definition date_label :: jsstring where
  "date_label = [0x53D1, 0x5E03, 0x65F6, 0x95F4, 0xFF1A]"

definition content_label :: jsstring where
  "content_label = [0x6587, 0x7AE0, 0x5185, 0x5BB9, 0xFF1A]"

definition instruction :: jsstring where
  "instruction =
     [0x8BF7, 0x4E3A, 0x8FD9, 0x7BC7, 0x6587, 0x7AE0, 0x751F, 0x6210] @ ascii ''200-300''
     @ [0x5B57, 0x7684, 0x6458, 0x8981, 0xFF1A]"

definition buildSummaryPrompt :: "'b backend \<Rightarrow> Article \<Rightarrow> jsstring" where
  "buildSummaryPrompt be article =
     (let prompt = title_label @ title article @ [0x0A, 0x0A];
          prompt = (if truthy_str (author article)
                    then prompt @ author_label @ the (author article) @ [0x0A, 0x0A]
                    else prompt);
          prompt = (case publish_date article of
                      None \<Rightarrow> prompt
                    | Some d \<Rightarrow> prompt @ date_label @ toLocaleString be d @ [0x0A, 0x0A]);
          content = str_or (content article) [];
          truncatedContent = (if length content > 3000 then take 3000 content @ ascii ''...''
                              else content)
      in prompt @ content_label @ [0x0A] @ truncatedContent @ [0x0A, 0x0A] @ instruction)"

text \<open>
  \<open>generateSummary\<close> calls itself again after a 429, without a bound: it is a partial
  function, and \<open>None\<close> is the run that never returns. Its state is the list of the
  prompts posted so far and the state of the API; its result is the summary or null.
\<close>

partial_function (option) generateSummary ::
  "'b backend \<Rightarrow> AIService \<Rightarrow> Article \<Rightarrow> jsstring list \<times> 'b
     \<Rightarrow> (jsstring option \<times> jsstring list \<times> 'b) option" where
  "generateSummary be svc article st =
     (if apiKey svc = [] then Some (None, st)
      else if \<not> truthy_str (content article) then Some (None, st)
      else (case post be (buildSummaryPrompt be article) (snd st) of
              (Summary_Text t, b') \<Rightarrow>
                Some (Some (trim t), fst st @ [buildSummaryPrompt be article], b')
            | (Rate_Limited, b') \<Rightarrow>
                generateSummary be svc article (fst st @ [buildSummaryPrompt be article], b')
            | (Failed, b') \<Rightarrow>
                Some (None, fst st @ [buildSummaryPrompt be article], b')))"

declare generateSummary.simps [code]

text \<open>The loop of \<open>generateSummaryBatch\<close> over the articles, filling \<open>summaryMap\<close>.\<close>

fun summaryLoop ::
  "'b backend \<Rightarrow> AIService \<Rightarrow> Article list \<Rightarrow> (jsstring \<rightharpoonup> jsstring) \<times> jsstring list \<times> 'b
     \<Rightarrow> ((jsstring \<rightharpoonup> jsstring) \<times> jsstring list \<times> 'b) option" where
  "summaryLoop be svc [] st = Some st"
| "summaryLoop be svc (article # rest) (summaryMap, calls, b) =
     (if article_url article = [] then summaryLoop be svc rest (summaryMap, calls, b)
      else (case generateSummary be svc article (calls, b) of
              None \<Rightarrow> None
            | Some (text, calls', b') \<Rightarrow>
                summaryLoop be svc rest
                  (if truthy_str text then summaryMap(article_url article \<mapsto> the text)
                   else summaryMap, calls', b')))"

definition generateSummaryBatch ::
  "'b backend \<Rightarrow> AIService \<Rightarrow> Article list \<Rightarrow> 'b
     \<Rightarrow> ((jsstring \<rightharpoonup> jsstring) \<times> jsstring list \<times> 'b) option" where
  "generateSummaryBatch be svc articles b = summaryLoop be svc articles (Map.empty, [], b)"

text \<open>
  An API that answers every prompt with the same summary, a configured and an
  unconfigured client, and a batch of an article with content, one without, and one
  whose content is the empty string.
\<close>

definition echo_backend :: "unit backend" where
  "echo_backend =
     \<lparr> post = (\<lambda>prompt b. (Summary_Text (ascii '' summary ''), b)),
       toLocaleString = (\<lambda>d. ascii ''2026/1/1'') \<rparr>"

definition client :: "string \<Rightarrow> AIService" where
  "client k = \<lparr> apiKey = ascii k, apiUrl = ascii ''https://api'', model = ascii ''qwen-flash'' \<rparr>"

definition article_of :: "string \<Rightarrow> jsstring option \<Rightarrow> Article" where
  "article_of u c =
     \<lparr> article_id = None, title = ascii ''T'', article_url = ascii u, source = ascii ''site'',
       content = c, summary = None, author = None, publish_date = None,
       crawl_date = Some (Date 2026 1 1), update_date = None, created_at = None \<rparr>"

definition sample_batch :: "Article list" where
  "sample_batch =
     [article_of ''http://e.com/a1'' (Some (ascii ''Body'')),
      article_of ''http://e.com/a2'' None,
      article_of ''http://e.com/a3'' (Some [])]"

section \<open>Properties of the pagination resolver\<close>

lemma pageLoop_upto:
  "pageLoop pat i maxP urls = urls @ map (\<lambda>k. replace page_placeholder (toString k) pat) [i..maxP]"
proof (induction pat i maxP urls rule: pageLoop.induct)
  case (1 pat i maxP urls)
  show ?case
  proof (cases "i \<le> maxP")
    case True
    then have "[i..maxP] = i # [i + 1..maxP]"
      by (simp add: upto_rec1)
    with True "1.IH" show ?thesis
      by (simp add: pageLoop.simps [of pat i maxP urls])
  next
    case False
    then show ?thesis
      by (simp add: pageLoop.simps [of pat i maxP urls])
  qed
qed

lemma digits_small: "n < 10 \<Longrightarrow> digits n = [of_nat (48 + n)]"
  by (simp add: digits.simps [of n])

lemma int_of_safe:
  "- 9007199254740991 \<le> n \<Longrightarrow> n \<le> 9007199254740991 \<Longrightarrow> int_of (safe n) = n"
  by (simp add: safe_inverse)

text \<open>The loop variable stays within the range where \<open>i++\<close> is exact.\<close>

lemma page_or_safe:
  "- 9007199254740991 \<le> page_or v 1 \<and> page_or v 1 \<le> 9007199254740991"
proof (cases v)
  case None
  then show ?thesis by (simp add: page_or_def)
next
  case (Some n)
  have "int_of n \<in> {i. - 9007199254740991 \<le> i \<and> i \<le> 9007199254740991}"
    by (rule int_of)
  with Some show ?thesis by (simp add: page_or_def)
qed

text \<open>
  With \<open>maxPages = 0\<close> the resolver visits one page: \<open>maxPages || 1\<close> takes the 0 for
  absent.
\<close>

lemma getPageUrls_zero_maxPages: "getPageUrls (paged_site 1 0) = [ascii ''/news?p=1'']"
  by (simp add: getPageUrls_def paged_site_def truthy_str_def page_or_def int_of_safe
      pageLoop_upto upto_rec1 [of 1 1] page_placeholder_def ascii_def toString_def digits_small)




section \<open>Properties of the date normalizer\<close>

lemma parseDate_absent: "parseDate nd None = None" "parseDate nd (Some []) = None"
  by (simp_all add: parseDate_def truthy_str_def)

text \<open>Without a match of the strict pattern the result is a valid date or none.\<close>

lemma parseDate_generic_valid:
  assumes "date_match (trim (remove_trailing (remove_prefixes s))) = None"
  shows "parseDate nd (Some s) \<noteq> Some Invalid_Date"
  using assms by (simp add: parseDate_def Let_def is_valid_def)

text \<open>
  C5. The claim: the date normalizer never returns an invalid date. On the text
  \<open>2024-13-45\<close> the strict pattern matches, and \<open>parseDate\<close> returns what the \<open>Date\<close>
  constructor makes of \<open>2024-13-45\<close> without checking it: the Invalid Date.
\<close>

theorem parseDate_returns_invalid_date:
  "parseDate nd (Some (ascii ''2024-13-45'')) = Some (nd (ascii ''2024-13-45''))
   \<and> node_Date (ascii ''2024-13-45'') = Invalid_Date
   \<and> parseDate node_Date (Some (ascii ''2024-13-45'')) = Some Invalid_Date"
  by code_simp

text \<open>What \<open>parseDate\<close> hands to the \<open>Date\<close> constructor on the example texts.\<close>

lemma parseDate_passes_on:
  "parseDate nd (Some date_text_cjk) = Some (nd (ascii ''2024-3-5''))"
  "parseDate nd (Some date_text_prefixed) = Some (nd (ascii ''2023-11-02''))"
  by code_simp+

text \<open>
  C6. The date normalizer maps the text \<open>2024\<close>, year sign, \<open>3\<close>, month sign, \<open>5\<close>, day
  sign to the date 2024-03-05; it maps the text made of the localized "published:"
  prefix, \<open>2023-11-02\<close>, a space and a middle dot to 2023-11-02, the prefix and the
  trailing dot being stripped before the match; and it maps \<open>not a date\<close> to no date.
\<close>

theorem parseDate_examples:
  "parseDate node_Date (Some date_text_cjk) = Some (Date 2024 3 5)
   \<and> trim (remove_trailing (remove_prefixes date_text_prefixed)) = ascii ''2023-11-02''
   \<and> parseDate node_Date (Some date_text_prefixed) = Some (Date 2023 11 2)
   \<and> parseDate node_Date (Some (ascii ''not a date'')) = None"
  by code_simp

section \<open>Properties of the crawl orchestrator\<close>


lemma produced_append: "produced (evs @ evs') = produced evs @ produced evs'"
  by (induction evs rule: produced.induct) simp_all

lemma accepted_iff_complete: "accepted (Some a) = complete a"
  by (simp add: accepted_def complete_def truthy_str_def split: option.splits)

lemma accepted_None: "\<not> accepted None"
  by (simp add: accepted_def)

lemma complete_produced_fetch:
  "filter complete (produced (evs @ [Fetch_Detail u (Inr article)])) =
     filter complete (produced evs) @ (if accepted article then [the article] else [])"
  by (cases article) (simp_all add: produced_append accepted_iff_complete accepted_None)

lemma produced_snoc_other:
  "produced (evs @ [Fetch_Detail u (Inl e)]) = produced evs"
  "produced (evs @ [Visit_List u r]) = produced evs"
  by (simp_all add: produced_append)

text \<open>Any property of the state that each step of the run keeps holds at its end.\<close>

lemma detailLoop_preserves:
  assumes fetch: "\<And>s u d w'. P s \<Longrightarrow> \<not> cap_reached config (allArticles s) \<Longrightarrow>
            P (after_fetch s u d w')"
    and "P st" and "detailLoop rt config las st = (r, st')"
  shows "P st'"
  using assms(2,3)
proof (induction las arbitrary: st)
  case Nil
  then show ?case by simp
next
  case (Cons la las)
  show ?case
  proof (cases "cap_reached config (allArticles st)")
    case True
    with Cons.prems show ?thesis by simp
  next
    case False
    obtain d w' where d: "crawlDetailPage rt config (list_url la) (Some la) (world st) = (d, w')"
      by (cases "crawlDetailPage rt config (list_url la) (Some la) (world st)")
    from Cons.prems(1) False have P1: "P (after_fetch st (list_url la) d w')"
      by (rule fetch)
    show ?thesis
    proof (cases d)
      case (Inl e)
      with Cons.prems(2) False d have "st' = after_fetch st (list_url la) d w'"
        by (simp add: after_fetch_def Let_def)
      with P1 show ?thesis by simp
    next
      case (Inr article)
      with Cons.prems(2) False d
      have "detailLoop rt config las (after_fetch st (list_url la) d w') = (r, st')"
        by (simp add: after_fetch_def Let_def split: if_splits)
      with P1 show ?thesis by (rule Cons.IH)
    qed
  qed
qed

lemma listLoop_preserves:
  assumes fetch: "\<And>s u d w'. P s \<Longrightarrow> \<not> cap_reached config (allArticles s) \<Longrightarrow>
            P (after_fetch s u d w')"
    and visit: "\<And>s u l w'. P s \<Longrightarrow> \<not> cap_reached config (allArticles s) \<Longrightarrow>
            P (after_visit s u l w')"
    and "P st" and "listLoop rt config us st = (r, st')"
  shows "P st'"
  using assms(3,4)
proof (induction us arbitrary: st)
  case Nil
  then show ?case by simp
next
  case (Cons u us)
  show ?case
  proof (cases "cap_reached config (allArticles st)")
    case True
    with Cons.prems show ?thesis by simp
  next
    case False
    obtain l w' where l: "crawlListPage rt config u (world st) = (l, w')"
      by (cases "crawlListPage rt config u (world st)")
    from Cons.prems(1) False have P1: "P (after_visit st u l w')"
      by (rule visit)
    show ?thesis
    proof (cases l)
      case (Inl e)
      with Cons.prems(2) False l have "st' = after_visit st u l w'"
        by (simp add: after_visit_def Let_def)
      with P1 show ?thesis by simp
    next
      case (Inr las)
      obtain r2 st2 where d: "detailLoop rt config las (after_visit st u l w') = (r2, st2)"
        by (cases "detailLoop rt config las (after_visit st u l w')")
      from fetch P1 d have P2: "P st2"
        by (rule detailLoop_preserves)
      show ?thesis
      proof (cases r2)
        case (Inl e)
        with Cons.prems(2) False l Inr d have "st' = st2"
          by (simp add: after_visit_def Let_def)
        with P2 show ?thesis by simp
      next
        case r2: (Inr x)
        with Cons.prems(2) False l Inr d have "listLoop rt config us st2 = (r, st')"
          by (simp add: after_visit_def Let_def)
        with P2 show ?thesis by (rule Cons.IH)
      qed
    qed
  qed
qed

lemma crawl_preserves:
  assumes fetch: "\<And>s u d w'. P s \<Longrightarrow> \<not> cap_reached config (allArticles s) \<Longrightarrow>
            P (after_fetch s u d w')"
    and visit: "\<And>s u l w'. P s \<Longrightarrow> \<not> cap_reached config (allArticles s) \<Longrightarrow>
            P (after_visit s u l w')"
    and init: "P \<lparr>allArticles = [], requests = [], world = w\<rparr>"
    and run: "crawl rt config w = (r, st)"
  shows "P st"
proof -
  let ?st0 = "\<lparr>allArticles = [], requests = [], world = w\<rparr>"
  obtain r1 st1 where l: "listLoop rt config (getPageUrls config) ?st0 = (r1, st1)"
    by (cases "listLoop rt config (getPageUrls config) ?st0")
  from fetch visit init l have "P st1"
    by (rule listLoop_preserves)
  moreover from run l have "st = st1"
    by (cases r1) (auto simp: crawl_def)
  ultimately show ?thesis by simp
qed

lemma crawl_returns_batch: "crawl rt config w = (Inr batch, st) \<Longrightarrow> batch = allArticles st"
  by (auto simp: crawl_def split: prod.splits sum.splits)

lemma batch_inv_fetch: "batch_inv s \<Longrightarrow> batch_inv (after_fetch s u d w')"
  by (cases d) (simp_all add: batch_inv_def after_fetch_def Let_def complete_produced_fetch
      produced_snoc_other)

lemma batch_inv_visit: "batch_inv s \<Longrightarrow> batch_inv (after_visit s u l w')"
  by (simp add: batch_inv_def after_visit_def produced_snoc_other)

lemma crawl_batch_inv:
  assumes "crawl rt config w = (r, st)"
  shows "batch_inv st"
proof (rule crawl_preserves [where P = batch_inv])
  show "batch_inv \<lparr>allArticles = [], requests = [], world = w\<rparr>"
    by (simp add: batch_inv_def)
  show "crawl rt config w = (r, st)" by (rule assms)
qed (simp_all add: batch_inv_fetch batch_inv_visit)

text \<open>Evaluating the sample runs.\<close>

lemma mixed_run_returns: "fst mixed_run = Inr (allArticles (snd mixed_run))"
  by code_simp

lemma mixed_run_batch:
  "map article_url (allArticles (snd mixed_run)) =
     [ascii ''http://e.com/a1'', ascii ''http://e.com/a3'', ascii ''http://e.com/a5'']"
  by code_simp

lemma mixed_run_produced: "length (produced (requests (snd mixed_run))) = 5"
  by code_simp

lemma sample_run_capped_requests:
  "map detail_url (requests (snd (sample_run (Some 2)))) =
     [None, Some (ascii ''http://e.com/a1''), Some (ascii ''http://e.com/a2'')]"
  by code_simp

lemma sample_run_capped_batch:
  "map article_url (projr (fst (sample_run (Some 2)))) =
     [ascii ''http://e.com/a1'', ascii ''http://e.com/a2'']"
  by code_simp

lemma sample_run_zero_batch:
  "(case fst (sample_run (Some 0)) of Inl e \<Rightarrow> False | Inr batch \<Rightarrow> length batch = 5)"
  by code_simp

lemma sample_run_zero_requests:
  "map detail_url (requests (snd (sample_run (Some 0)))) =
     [None, Some (ascii ''http://e.com/a1''), Some (ascii ''http://e.com/a2''),
      Some (ascii ''http://e.com/a3''), Some (ascii ''http://e.com/a4''),
      Some (ascii ''http://e.com/a5'')]"
  by code_simp

text \<open>
  C1. Whenever \<open>crawl\<close> returns a batch, the batch is the list of the articles that the
  detail extractions of the run produced with a non-empty title and a non-empty
  content, in order: every article of the batch has both fields non-empty, and a
  produced article is in the batch if and only if both its fields are non-empty.
\<close>

theorem crawl_accumulates_iff_complete:
  assumes "crawl rt config w = (Inr batch, st)"
  shows "batch = filter complete (produced (requests st))
         \<and> (\<forall>a \<in> set batch. title a \<noteq> [] \<and> (\<exists>c. content a = Some c \<and> c \<noteq> []))
         \<and> (\<forall>a \<in> set (produced (requests st)).
               a \<in> set batch \<longleftrightarrow> title a \<noteq> [] \<and> (\<exists>c. content a = Some c \<and> c \<noteq> []))"
proof -
  from assms have "batch_inv st" by (rule crawl_batch_inv)
  moreover from assms have "batch = allArticles st" by (rule crawl_returns_batch)
  ultimately have b: "batch = filter complete (produced (requests st))"
    by (simp add: batch_inv_def)
  have c: "complete a \<longleftrightarrow> title a \<noteq> [] \<and> (\<exists>c. content a = Some c \<and> c \<noteq> [])" for a
    by (auto simp: complete_def)
  from b c show ?thesis by auto
qed

theorem crawl_accumulates_iff_complete_witness:
  "mixed_run = (Inr (allArticles (snd mixed_run)), snd mixed_run)
   \<and> allArticles (snd mixed_run) = filter complete (produced (requests (snd mixed_run)))
   \<and> list_all (\<lambda>a. title a \<noteq> [] \<and> (\<exists>c. content a = Some c \<and> c \<noteq> []))
        (allArticles (snd mixed_run))
   \<and> length (allArticles (snd mixed_run)) = 3
   \<and> length (produced (requests (snd mixed_run))) = 5"
proof -
  have run: "crawl (small_web five_items mixed_pages) (small_site None) ()
      = (Inr (allArticles (snd mixed_run)), snd mixed_run)"
    using mixed_run_returns by (simp add: mixed_run_def prod_eq_iff)
  have "length (map article_url (allArticles (snd mixed_run))) = 3"
    by (simp only: mixed_run_batch) simp
  then have three: "length (allArticles (snd mixed_run)) = 3"
    by simp
  from run have "mixed_run = (Inr (allArticles (snd mixed_run)), snd mixed_run)"
    by (simp add: mixed_run_def)
  with crawl_accumulates_iff_complete [OF run] three mixed_run_produced
  show ?thesis by (simp add: list_all_iff)
qed


lemma within_cap_snoc:
  assumes "within_cap m evs" and "int (accumulated evs) < m"
  shows "within_cap m (evs @ [ev])"
  unfolding within_cap_def
proof (intro allI impI)
  fix pre ev' post
  assume split: "evs @ [ev] = pre @ ev' # post"
  show "int (accumulated pre) < m"
  proof (cases post rule: rev_cases)
    case Nil
    with split have "pre = evs" by simp
    with assms(2) show ?thesis by simp
  next
    case (snoc post' x)
    with split have "evs = pre @ ev' # post'" by simp
    with assms(1) show ?thesis by (auto simp: within_cap_def)
  qed
qed

lemma open_cap:
  assumes "maxArticles config = Some m" and "0 < m"
    and "\<not> cap_reached config (allArticles s)"
  shows "int (length (allArticles s)) < m"
  using assms by (simp add: cap_reached_def truthy_num_def)

lemma cap_inv_fetch:
  assumes "maxArticles config = Some m" and "0 < m"
    and inv: "cap_inv m s" and op: "\<not> cap_reached config (allArticles s)"
  shows "cap_inv m (after_fetch s u d w')"
proof -
  from assms(1,2) op have lt: "int (length (allArticles s)) < m" by (rule open_cap)
  from inv have b: "batch_inv s" by (simp add: cap_inv_def)
  then have "accumulated (requests s) = length (allArticles s)"
    by (simp add: batch_inv_def accumulated_def)
  with inv lt have w: "within_cap m (requests s @ [Fetch_Detail u d])"
    by (simp add: cap_inv_def within_cap_snoc)
  from b have b': "batch_inv (after_fetch s u d w')" by (rule batch_inv_fetch)
  from lt have "int (length (allArticles (after_fetch s u d w'))) \<le> m"
    by (cases d) (simp_all add: after_fetch_def Let_def)
  moreover have "requests (after_fetch s u d w') = requests s @ [Fetch_Detail u d]"
    by (cases d) (simp_all add: after_fetch_def Let_def)
  ultimately show ?thesis using w b' by (simp add: cap_inv_def)
qed

lemma cap_inv_visit:
  assumes "maxArticles config = Some m" and "0 < m"
    and inv: "cap_inv m s" and op: "\<not> cap_reached config (allArticles s)"
  shows "cap_inv m (after_visit s u l w')"
proof -
  from assms(1,2) op have lt: "int (length (allArticles s)) < m" by (rule open_cap)
  from inv have b: "batch_inv s" by (simp add: cap_inv_def)
  then have "accumulated (requests s) = length (allArticles s)"
    by (simp add: batch_inv_def accumulated_def)
  with inv lt have w: "within_cap m (requests s @ [Visit_List u l])"
    by (simp add: cap_inv_def within_cap_snoc)
  from b have "batch_inv (after_visit s u l w')" by (rule batch_inv_visit)
  with w lt show ?thesis by (simp add: cap_inv_def after_visit_def)
qed

lemma crawl_cap_inv:
  assumes "maxArticles config = Some m" and "0 < m" and "crawl rt config w = (r, st)"
  shows "cap_inv m st"
proof (rule crawl_preserves [where P = "cap_inv m"])
  show "cap_inv m \<lparr>allArticles = [], requests = [], world = w\<rparr>"
    using assms(2) by (simp add: cap_inv_def batch_inv_def within_cap_def)
  show "crawl rt config w = (r, st)" by (rule assms(3))
qed (simp_all add: cap_inv_fetch [OF assms(1,2)] cap_inv_visit [OF assms(1,2)])

text \<open>
  C2 (counterexample). With \<open>maxArticles = 0\<close> and a list page of five candidates the
  run returns five articles, more than \<open>maxArticles\<close>, and fetches all five detail
  pages.
\<close>

theorem crawl_zero_cap_counterexample:
  "maxArticles (small_site (Some 0)) = Some 0
   \<and> (case fst (sample_run (Some 0)) of Inl e \<Rightarrow> False | Inr batch \<Rightarrow> length batch = 5)
   \<and> length (requests (snd (sample_run (Some 0)))) = 6"
proof -
  have "length (map detail_url (requests (snd (sample_run (Some 0))))) = 6"
    by (simp only: sample_run_zero_requests) simp
  then show ?thesis
    using sample_run_zero_batch by (simp add: small_site_def)
qed

text \<open>
  C2 (amended). For a site whose \<open>maxArticles\<close> is a positive number \<open>m\<close>, a batch that
  \<open>crawl\<close> returns has at most \<open>m\<close> articles, and every navigation of the run, to a
  list page or to a detail page, was made while fewer than \<open>m\<close> articles had been
  accumulated: once the count has reached \<open>m\<close>, nothing more is fetched or visited.
\<close>

theorem crawl_respects_positive_cap:
  assumes "maxArticles config = Some m" and "0 < m" and "crawl rt config w = (r, st)"
  shows "(\<forall>batch. r = Inr batch \<longrightarrow> int (length batch) \<le> m)
         \<and> (\<forall>pre ev post. requests st = pre @ ev # post \<longrightarrow> int (accumulated pre) < m)"
proof -
  from assms have inv: "cap_inv m st" by (rule crawl_cap_inv)
  have "int (length batch) \<le> m" if "r = Inr batch" for batch
  proof -
    from that assms(3) have "batch = allArticles st" by (simp add: crawl_returns_batch)
    with inv show ?thesis by (simp add: cap_inv_def)
  qed
  moreover from inv have "within_cap m (requests st)" by (simp add: cap_inv_def)
  ultimately show ?thesis by (simp add: within_cap_def)
qed

theorem crawl_respects_positive_cap_witness:
  "maxArticles (small_site (Some 2)) = Some 2 \<and> (0::int) < 2
   \<and> int (length (projr (fst (sample_run (Some 2))))) \<le> 2
   \<and> within_cap 2 (requests (snd (sample_run (Some 2))))
   \<and> map article_url (projr (fst (sample_run (Some 2)))) =
       [ascii ''http://e.com/a1'', ascii ''http://e.com/a2'']
   \<and> map detail_url (requests (snd (sample_run (Some 2)))) =
       [None, Some (ascii ''http://e.com/a1''), Some (ascii ''http://e.com/a2'')]"
proof -
  have cap: "maxArticles (small_site (Some 2)) = Some 2"
    by (simp add: small_site_def)
  have run: "crawl (small_web five_items (\<lambda>u. detail_page ''T'' ''B'')) (small_site (Some 2)) ()
      = (fst (sample_run (Some 2)), snd (sample_run (Some 2)))"
    by (simp add: sample_run_def)
  have "length (map article_url (projr (fst (sample_run (Some 2))))) = 2"
    by (simp only: sample_run_capped_batch) simp
  then have two: "int (length (projr (fst (sample_run (Some 2))))) \<le> 2"
    by simp
  from crawl_respects_positive_cap [OF cap _ run]
  have "within_cap 2 (requests (snd (sample_run (Some 2))))"
    by (simp add: within_cap_def)
  with cap two sample_run_capped_batch sample_run_capped_requests
  show ?thesis by simp
qed



lemma cap_never_reached: "\<not> truthy_num (maxArticles config) \<Longrightarrow> \<not> cap_reached config xs"
  by (simp add: cap_reached_def)

lemma extract_link_maxArticles:
  "extract_link rt (config\<lparr>maxArticles := c\<rparr>) el = extract_link rt config el"
  by (simp add: extract_link_def cong: sum.case_cong option.case_cong if_cong)

lemma extract_item_maxArticles:
  "extract_item rt (config\<lparr>maxArticles := c\<rparr>) el = extract_item rt config el"
  by (simp add: extract_item_def extract_link_maxArticles cong: sum.case_cong if_cong)

lemma extract_items_maxArticles:
  "extract_items rt (config\<lparr>maxArticles := c\<rparr>) els acc = extract_items rt config els acc"
  by (induction els arbitrary: acc) (simp_all add: extract_item_maxArticles)

lemma crawlListPage_maxArticles:
  "crawlListPage rt (config\<lparr>maxArticles := c\<rparr>) u w = crawlListPage rt config u w"
  by (simp add: crawlListPage_def extract_items_maxArticles
      cong: sum.case_cong prod.case_cong nav.case_cong if_cong)

lemma crawlDetailPage_maxArticles:
  "crawlDetailPage rt (config\<lparr>maxArticles := c\<rparr>) u la w = crawlDetailPage rt config u la w"
  by (simp add: crawlDetailPage_def extract_article_def extract_content_def extract_title_def
      extract_author_def extract_date_def
      cong: sum.case_cong prod.case_cong nav.case_cong option.case_cong if_cong)

lemma getPageUrls_maxArticles: "getPageUrls (config\<lparr>maxArticles := c\<rparr>) = getPageUrls config"
  by (simp add: getPageUrls_def cong: option.case_cong if_cong)

lemma detailLoop_uncapped_eq:
  assumes "\<not> truthy_num c" and "\<not> truthy_num c'"
  shows "detailLoop rt (config\<lparr>maxArticles := c\<rparr>) las st =
         detailLoop rt (config\<lparr>maxArticles := c'\<rparr>) las st"
proof (induction las arbitrary: st)
  case Nil
  show ?case by simp
next
  case (Cons la las)
  from assms have "\<not> cap_reached (config\<lparr>maxArticles := c\<rparr>) (allArticles st)"
    and "\<not> cap_reached (config\<lparr>maxArticles := c'\<rparr>) (allArticles st)"
    by (simp_all add: cap_never_reached)
  then show ?case
    by (simp add: crawlDetailPage_maxArticles Cons.IH Let_def split: prod.splits sum.splits)
qed

lemma listLoop_uncapped_eq:
  assumes "\<not> truthy_num c" and "\<not> truthy_num c'"
  shows "listLoop rt (config\<lparr>maxArticles := c\<rparr>) us st =
         listLoop rt (config\<lparr>maxArticles := c'\<rparr>) us st"
proof (induction us arbitrary: st)
  case Nil
  show ?case by simp
next
  case (Cons u us)
  from assms have "\<not> cap_reached (config\<lparr>maxArticles := c\<rparr>) (allArticles st)"
    and "\<not> cap_reached (config\<lparr>maxArticles := c'\<rparr>) (allArticles st)"
    by (simp_all add: cap_never_reached)
  then show ?case
    by (simp add: crawlListPage_maxArticles detailLoop_uncapped_eq [OF assms] Cons.IH Let_def
        split: prod.splits sum.splits)
qed

lemma crawl_uncapped_eq:
  assumes "\<not> truthy_num c" and "\<not> truthy_num c'"
  shows "crawl rt (config\<lparr>maxArticles := c\<rparr>) w = crawl rt (config\<lparr>maxArticles := c'\<rparr>) w"
  by (simp add: crawl_def getPageUrls_maxArticles listLoop_uncapped_eq [OF assms])

lemma detailLoop_uncapped_requests:
  assumes "\<not> truthy_num (maxArticles config)"
    and "detailLoop rt config las st = (Inr x, st')"
  shows "\<exists>evs. requests st' = requests st @ evs
            \<and> map detail_url evs = map (\<lambda>la. Some (list_url la)) las"
  using assms(2)
proof (induction las arbitrary: st)
  case Nil
  then show ?case by simp
next
  case (Cons la las)
  from assms(1) have open_: "\<not> cap_reached config (allArticles st)"
    by (rule cap_never_reached)
  obtain d w' where d: "crawlDetailPage rt config (list_url la) (Some la) (world st) = (d, w')"
    by (cases "crawlDetailPage rt config (list_url la) (Some la) (world st)")
  show ?case
  proof (cases d)
    case (Inl e)
    with Cons.prems open_ d show ?thesis by (simp add: Let_def)
  next
    case (Inr article)
    with Cons.prems open_ d
    have "detailLoop rt config las (after_fetch st (list_url la) d w') = (Inr x, st')"
      by (simp add: after_fetch_def Let_def split: if_splits)
    then obtain evs where "requests st' = requests (after_fetch st (list_url la) d w') @ evs"
      and "map detail_url evs = map (\<lambda>la. Some (list_url la)) las"
      using Cons.IH by blast
    moreover have "requests (after_fetch st (list_url la) d w') =
        requests st @ [Fetch_Detail (list_url la) d]"
      by (cases d) (simp_all add: after_fetch_def Let_def)
    ultimately have "requests st' = requests st @ (Fetch_Detail (list_url la) d # evs)
        \<and> map detail_url (Fetch_Detail (list_url la) d # evs) =
           map (\<lambda>la. Some (list_url la)) (la # las)"
      by simp
    then show ?thesis by blast
  qed
qed

lemma visits_all_page:
  assumes "map detail_url devs = map (\<lambda>la. Some (list_url la)) las" and "visits_all us evs"
  shows "visits_all (u # us) (Visit_List u (Inr las) # devs @ evs)"
proof -
  from assms(1) have "length devs = length las"
    by (rule map_eq_imp_length_eq)
  with assms show ?thesis by simp
qed

lemma listLoop_uncapped_requests:
  assumes "\<not> truthy_num (maxArticles config)"
    and "listLoop rt config us st = (Inr x, st')"
  shows "\<exists>evs. requests st' = requests st @ evs \<and> visits_all us evs"
  using assms(2)
proof (induction us arbitrary: st)
  case Nil
  then show ?case by simp
next
  case (Cons u us)
  from assms(1) have open_: "\<not> cap_reached config (allArticles st)"
    by (rule cap_never_reached)
  obtain l w' where l: "crawlListPage rt config u (world st) = (l, w')"
    by (cases "crawlListPage rt config u (world st)")
  show ?case
  proof (cases l)
    case (Inl e)
    with Cons.prems open_ l show ?thesis by (simp add: Let_def)
  next
    case (Inr las)
    obtain r2 st2 where d: "detailLoop rt config las (after_visit st u l w') = (r2, st2)"
      by (cases "detailLoop rt config las (after_visit st u l w')")
    show ?thesis
    proof (cases r2)
      case (Inl e)
      with Cons.prems open_ l Inr d show ?thesis by (simp add: after_visit_def Let_def)
    next
      case r2: (Inr y)
      with Cons.prems open_ l Inr d have rest: "listLoop rt config us st2 = (Inr x, st')"
        by (simp add: after_visit_def Let_def)
      from assms(1) d r2 obtain devs where
        devs: "requests st2 = requests (after_visit st u l w') @ devs"
          "map detail_url devs = map (\<lambda>la. Some (list_url la)) las"
        using detailLoop_uncapped_requests by blast
      from rest obtain evs where evs: "requests st' = requests st2 @ evs" "visits_all us evs"
        using Cons.IH by blast
      from devs(2) evs(2) have "visits_all (u # us) (Visit_List u (Inr las) # devs @ evs)"
        by (rule visits_all_page)
      moreover from devs(1) evs(1) Inr
      have "requests st' = requests st @ (Visit_List u (Inr las) # devs @ evs)"
        by (simp add: after_visit_def)
      ultimately show ?thesis by blast
    qed
  qed
qed

lemma crawl_uncapped_visits_all:
  assumes "\<not> truthy_num (maxArticles config)" and "crawl rt config w = (Inr batch, st)"
  shows "visits_all (getPageUrls config) (requests st)"
proof -
  let ?st0 = "\<lparr>allArticles = [], requests = [], world = w\<rparr>"
  obtain r1 st1 where l: "listLoop rt config (getPageUrls config) ?st0 = (r1, st1)"
    by (cases "listLoop rt config (getPageUrls config) ?st0")
  with assms(2) obtain x where "r1 = Inr x" and "st = st1"
    by (cases r1) (auto simp: crawl_def)
  with l assms(1) obtain evs where "requests st = requests ?st0 @ evs"
    and "visits_all (getPageUrls config) evs"
    using listLoop_uncapped_requests by blast
  then show ?thesis by simp
qed

lemma crawl_negative_cap:
  assumes "maxArticles config = Some m" and "m < 0"
  shows "crawl rt config w = (Inr [], \<lparr>allArticles = [], requests = [], world = w\<rparr>)"
proof -
  from assms have "cap_reached config []"
    by (simp add: cap_reached_def truthy_num_def)
  then have "listLoop rt config us \<lparr>allArticles = [], requests = [], world = w\<rparr> =
      (Inr (), \<lparr>allArticles = [], requests = [], world = w\<rparr>)" for us
    by (cases us) simp_all
  then show ?thesis by (simp add: crawl_def)
qed

text \<open>
  C10 (counterexample). With \<open>maxArticles = -1\<close>, which is not a positive number, the cap
  check is in force: it fires before the first list page, and the run on the sample
  site of five candidates returns an empty batch without a single navigation, whereas
  with \<open>maxArticles\<close> unset or 0 the same run makes six.
\<close>

theorem crawl_negative_cap_counterexample:
  "maxArticles (small_site (Some (- 1))) = Some (- 1)
   \<and> sample_run (Some (- 1)) = (Inr [], \<lparr>allArticles = [], requests = [], world = ()\<rparr>)
   \<and> length (requests (snd (sample_run (Some 0)))) = 6"
proof -
  have cap: "maxArticles (small_site (Some (- 1))) = Some (- 1)"
    by (simp add: small_site_def)
  then have "sample_run (Some (- 1)) = (Inr [], \<lparr>allArticles = [], requests = [], world = ()\<rparr>)"
    by (simp add: sample_run_def crawl_negative_cap)
  moreover have "length (map detail_url (requests (snd (sample_run (Some 0))))) = 6"
    by (simp only: sample_run_zero_requests) simp
  ultimately show ?thesis using cap by simp
qed

text \<open>
  C10 (amended). With \<open>maxArticles = 0\<close> the run is the run of the same site with
  \<open>maxArticles\<close> unset: the cap check never fires, and a run that returns has visited
  every list page of the pagination resolver and fetched the detail page of every
  candidate. The check is skipped for 0 and unset only: with a negative \<open>maxArticles\<close>
  it fires before the first list page, and the run returns an empty batch without a
  navigation.
\<close>

theorem crawl_zero_cap_is_no_cap:
  assumes "maxArticles config = Some 0"
  shows "crawl rt config w = crawl rt (config\<lparr>maxArticles := None\<rparr>) w
         \<and> (\<forall>articles. \<not> cap_reached config articles)
         \<and> (\<forall>batch st. crawl rt config w = (Inr batch, st) \<longrightarrow>
               visits_all (getPageUrls config) (requests st))
         \<and> (\<forall>m. maxArticles other = Some m \<and> m < 0 \<longrightarrow>
               crawl rt other w = (Inr [], \<lparr>allArticles = [], requests = [], world = w\<rparr>))"
proof -
  have "config = config\<lparr>maxArticles := Some 0\<rparr>"
    using assms by simp
  then have "crawl rt config w = crawl rt (config\<lparr>maxArticles := Some 0\<rparr>) w"
    by simp
  also have "\<dots> = crawl rt (config\<lparr>maxArticles := None\<rparr>) w"
    by (rule crawl_uncapped_eq) (simp_all add: truthy_num_def)
  finally have eq: "crawl rt config w = crawl rt (config\<lparr>maxArticles := None\<rparr>) w" .
  from assms have falsy: "\<not> truthy_num (maxArticles config)"
    by (simp add: truthy_num_def)
  then have never: "\<forall>articles. \<not> cap_reached config articles"
    by (simp add: cap_never_reached)
  from falsy have all: "visits_all (getPageUrls config) (requests st)"
    if "crawl rt config w = (Inr batch, st)" for batch st
    using that by (rule crawl_uncapped_visits_all)
  have neg: "crawl rt other w = (Inr [], \<lparr>allArticles = [], requests = [], world = w\<rparr>)"
    if "maxArticles other = Some m \<and> m < 0" for m
    using that by (simp add: crawl_negative_cap)
  from eq never all neg show ?thesis by blast
qed

theorem crawl_zero_cap_is_no_cap_witness:
  "maxArticles (small_site (Some 0)) = Some 0
   \<and> sample_run (Some 0) = sample_run None
   \<and> visits_all (getPageUrls (small_site (Some 0))) (requests (snd (sample_run (Some 0))))
   \<and> (case fst (sample_run (Some 0)) of Inl e \<Rightarrow> False | Inr batch \<Rightarrow> length batch = 5)
   \<and> maxArticles (small_site (Some (- 2))) = Some (- 2)
   \<and> sample_run (Some (- 2)) = (Inr [], \<lparr>allArticles = [], requests = [], world = ()\<rparr>)"
proof -
  let ?rt = "small_web five_items (\<lambda>u. detail_page ''T'' ''B'')"
  have cap: "maxArticles (small_site (Some 0)) = Some 0"
    by (simp add: small_site_def)
  have neg: "maxArticles (small_site (Some (- 2))) = Some (- 2)"
    by (simp add: small_site_def)
  have unset: "(small_site (Some 0))\<lparr>maxArticles := None\<rparr> = small_site None"
    by (simp add: small_site_def)
  have s0: "crawl ?rt (small_site (Some 0)) () = sample_run (Some 0)"
    by (simp only: sample_run_def)
  have sN: "crawl ?rt (small_site None) () = sample_run None"
    by (simp only: sample_run_def)
  have s2: "crawl ?rt (small_site (Some (- 2))) () = sample_run (Some (- 2))"
    by (simp only: sample_run_def)
  note fact = crawl_zero_cap_is_no_cap [OF cap, of ?rt "()" "small_site (Some (- 2))"]
  from fact have eq: "sample_run (Some 0) = sample_run None"
    by (simp only: unset s0 sN)
  obtain batch where b: "fst (sample_run (Some 0)) = Inr batch"
    using sample_run_zero_batch by (cases "fst (sample_run (Some 0))") simp_all
  then have run: "crawl ?rt (small_site (Some 0)) () = (Inr batch, snd (sample_run (Some 0)))"
    by (simp only: s0 prod_eq_iff fst_conv snd_conv simp_thms)
  from fact run
  have all: "visits_all (getPageUrls (small_site (Some 0))) (requests (snd (sample_run (Some 0))))"
    by blast
  from fact neg
  have "crawl ?rt (small_site (Some (- 2))) () = (Inr [], \<lparr>allArticles = [], requests = [], world = ()\<rparr>)"
    by simp
  then have none: "sample_run (Some (- 2)) = (Inr [], \<lparr>allArticles = [], requests = [], world = ()\<rparr>)"
    by (simp only: s2)
  from cap eq all sample_run_zero_batch neg none show ?thesis by blast
qed

section \<open>Properties of the list extractor\<close>


lemma extract_items_emitted:
  "extract_items rt config els acc = acc @ concat (map (emitted rt config) els)"
  by (induction els arbitrary: acc) (auto simp: emitted_def split: sum.splits)

lemma emitted_fields:
  "la \<in> set (emitted rt config el) \<Longrightarrow> list_title la \<noteq> [] \<and> list_url la \<noteq> []"
  by (auto simp: emitted_def split: sum.splits if_splits)

lemma emitted_length: "length (emitted rt config el) \<le> 1"
  by (simp add: emitted_def split: sum.splits)

lemma no_link_url:
  "no_link config el \<Longrightarrow> extract_link rt config el = Inr []"
  by (auto simp: no_link_def extract_link_def truthy_str_def split: sum.splits option.splits)

lemma no_link_emits_nothing: "no_link config el \<Longrightarrow> emitted rt config el = []"
  by (auto simp: emitted_def extract_item_def no_link_url split: sum.splits)

lemma has_title_text:
  "has_title config el \<Longrightarrow>
     \<exists>t. (if truthy_str (list_titleSelector (listPage config))
          then eval_text el (the (list_titleSelector (listPage config)))
          else text_of el) = Inr t \<and> t \<noteq> []"
  by (auto simp: has_title_def truthy_str_def eval_text_def split: option.splits sum.splits if_splits)

lemma has_link_url:
  assumes "has_link rt config el"
  shows "\<exists>u. extract_link rt config el = Inr u \<and> u \<noteq> []"
proof -
  from assms obtain linkEl where q: "query el (linkSelector (listPage config)) = Inr (Some linkEl)"
    by (auto simp: has_link_def split: sum.splits option.splits)
  with assms obtain href where h: "getAttribute linkEl (ascii ''href'') = Inr (Some href)"
    by (auto simp: has_link_def split: sum.splits option.splits)
  from assms q h have ne: "href \<noteq> []"
    and alt: "starts_with href (ascii ''http'') \<or>
      (case resolve_url rt href (baseUrl config) of Inl e \<Rightarrow> False | Inr u \<Rightarrow> u \<noteq> [])"
    by (simp_all add: has_link_def)
  show ?thesis
  proof (cases "starts_with href (ascii ''http'')")
    case True
    with q h ne show ?thesis
      by (simp add: extract_link_def truthy_str_def)
  next
    case False
    with alt obtain u where "resolve_url rt href (baseUrl config) = Inr u" and "u \<noteq> []"
      by (auto split: sum.splits)
    with q h ne False show ?thesis
      by (simp add: extract_link_def truthy_str_def)
  qed
qed

lemma resolvable_emits_one:
  assumes "resolvable rt config el"
  shows "length (emitted rt config el) = 1"
proof -
  from assms have "has_title config el" by (simp add: resolvable_def)
  then obtain t where t: "(if truthy_str (list_titleSelector (listPage config))
          then eval_text el (the (list_titleSelector (listPage config)))
          else text_of el) = Inr t" "t \<noteq> []"
    using has_title_text by blast
  from assms have "has_link rt config el" by (simp add: resolvable_def)
  then obtain u where u: "extract_link rt config el = Inr u" "u \<noteq> []"
    using has_link_url by blast
  from t u show ?thesis
    by (simp add: emitted_def extract_item_def)
qed

lemma length_concat_emitted:
  "length (concat (map (emitted rt config) els)) =
     length (filter (\<lambda>el. emitted rt config el \<noteq> []) els)"
proof (induction els)
  case Nil
  show ?case by simp
next
  case (Cons el els)
  have "length (emitted rt config el) = (if emitted rt config el \<noteq> [] then 1 else 0)"
    using emitted_length [of rt config el] by (cases "emitted rt config el") auto
  with Cons show ?case by simp
qed

lemma filter_length_mono:
  assumes "\<And>x. P x \<Longrightarrow> Q x"
  shows "length (filter P xs) \<le> length (filter Q xs)"
  using assms by (induction xs) auto

lemma three_items_two_resolvable:
  assumes "length els = 3" and "length (filter (resolvable rt config) els) = 2"
    and "\<exists>el \<in> set els. no_link config el"
  shows "length (concat (map (emitted rt config) els)) = 2"
proof -
  let ?E = "\<lambda>el. emitted rt config el \<noteq> []"
  have "length (filter (resolvable rt config) els) \<le> length (filter ?E els)"
  proof (rule filter_length_mono)
    fix el assume "resolvable rt config el"
    then have "length (emitted rt config el) = 1" by (rule resolvable_emits_one)
    then show "emitted rt config el \<noteq> []" by auto
  qed
  with assms(2) have lower: "2 \<le> length (filter ?E els)" by simp
  from assms(3) obtain el where "el \<in> set els" and "\<not> ?E el"
    using no_link_emits_nothing by blast
  then have "length (filter ?E els) < length els"
    by (rule length_filter_less)
  with assms(1) lower have "length (filter ?E els) = 2" by simp
  then show ?thesis by (simp add: length_concat_emitted)
qed

text \<open>
  C7. On a loaded list page the list extractor returns, element by element in document
  order, what each element matching \<open>articleSelector\<close> contributes. Every item it
  returns has a non-empty title and a non-empty URL; an element whose link cannot be
  resolved (no descendant matches \<open>linkSelector\<close>, or the matched element has no
  \<open>href\<close>) contributes nothing; and for a page of three matching elements of which two
  have resolvable titles and links and one has no link, exactly two items are returned.
\<close>

theorem list_extractor_emits_resolved_items:
  assumes nav: "visit rt pageUrl w = (Opened (Inr pg) True, w')"
    and els: "query_selector_all pg (articleSelector (listPage config)) = Inr els"
  shows "\<exists>items. crawlListPage rt config pageUrl w = (Inr items, w')
           \<and> items = concat (map (emitted rt config) els)
           \<and> (\<forall>la \<in> set items. list_title la \<noteq> [] \<and> list_url la \<noteq> [])
           \<and> (\<forall>el. no_link config el \<longrightarrow> emitted rt config el = [])
           \<and> (length els = 3 \<and> length (filter (resolvable rt config) els) = 2
                \<and> (\<exists>el \<in> set els. no_link config el) \<longrightarrow> length items = 2)"
proof -
  let ?items = "concat (map (emitted rt config) els)"
  from nav els have "crawlListPage rt config pageUrl w = (Inr ?items, w')"
    by (simp add: crawlListPage_def extract_items_emitted)
  moreover have "\<forall>la \<in> set ?items. list_title la \<noteq> [] \<and> list_url la \<noteq> []"
    using emitted_fields by fastforce
  moreover have "\<forall>el. no_link config el \<longrightarrow> emitted rt config el = []"
    by (simp add: no_link_emits_nothing)
  moreover have "length els = 3 \<and> length (filter (resolvable rt config) els) = 2
      \<and> (\<exists>el \<in> set els. no_link config el) \<longrightarrow> length ?items = 2"
    using three_items_two_resolvable by blast
  ultimately show ?thesis by blast
qed

lemma three_items_eval:
  "length (filter (resolvable (small_web three_items (\<lambda>u. padded_page)) (small_site None)) three_items) = 2"
  "list_ex (no_link (small_site None)) three_items"
  "map list_title (projr (fst (crawlListPage (small_web three_items (\<lambda>u. padded_page))
      (small_site None) (ascii ''http://e.com/news'') ()))) = [ascii ''A'', ascii ''C'']"
  by code_simp+

theorem list_extractor_emits_resolved_items_witness:
  "visit (small_web three_items (\<lambda>u. padded_page)) (ascii ''http://e.com/news'') ()
     = (Opened (Inr (list_page three_items)) True, ())
   \<and> query_selector_all (list_page three_items) (articleSelector (listPage (small_site None)))
     = Inr three_items
   \<and> length three_items = 3
   \<and> length (filter (resolvable (small_web three_items (\<lambda>u. padded_page)) (small_site None)) three_items) = 2
   \<and> list_ex (no_link (small_site None)) three_items
   \<and> length (projr (fst (crawlListPage (small_web three_items (\<lambda>u. padded_page))
        (small_site None) (ascii ''http://e.com/news'') ()))) = 2
   \<and> map list_title (projr (fst (crawlListPage (small_web three_items (\<lambda>u. padded_page))
        (small_site None) (ascii ''http://e.com/news'') ()))) = [ascii ''A'', ascii ''C'']"
proof -
  let ?rt = "small_web three_items (\<lambda>u. padded_page)"
  let ?u = "ascii ''http://e.com/news''"
  have "\<not> starts_with ?u (ascii ''http://e.com/a'')"
    by code_simp
  then have nav: "visit ?rt ?u () = (Opened (Inr (list_page three_items)) True, ())"
    by (simp add: small_web_def)
  have els: "query_selector_all (list_page three_items) (articleSelector (listPage (small_site None)))
      = Inr three_items"
    by (simp add: list_page_def small_site_def)
  have three: "length three_items = 3"
    by (simp add: three_items_def)
  from three_items_eval(2) have ex: "\<exists>el \<in> set three_items. no_link (small_site None) el"
    by (simp add: list_ex_iff)
  from list_extractor_emits_resolved_items [OF nav els] three three_items_eval(1) ex
  have "length (projr (fst (crawlListPage ?rt (small_site None) ?u ()))) = 2"
    by auto
  with nav els three three_items_eval show ?thesis by simp
qed

section \<open>Properties of the detail extractor\<close>


lemma extract_title_on_throw:
  assumes "page_text pg (detail_titleSelector (detailPage config)) = Inl e"
  shows "extract_title config (Some la) pg = list_title la"
  using assms by (simp add: extract_title_def)

lemma extract_title_without_match:
  assumes "query_selector pg (detail_titleSelector (detailPage config)) = Inr None"
  shows "extract_title config la pg = []"
  using assms by (simp add: extract_title_def page_text_def)

lemma extract_title_empty_text:
  assumes "query_selector pg (detail_titleSelector (detailPage config)) = Inr (Some el)"
    and "text_of el = Inr []"
  shows "extract_title config la pg = []"
  using assms by (simp add: extract_title_def page_text_def)

text \<open>
  C3. The claim: when the title extraction yields an empty result, the article takes the
  title of the candidate. On a detail page where no element matches the title selector
  the article keeps the empty title although the candidate is titled \<open>Headline\<close>, and
  the orchestrator then discards the article. (The title of the candidate is taken
  only when the extraction throws, see \<open>extract_title_on_throw\<close>.)
\<close>

theorem title_lost_without_match:
  "list_title headline = ascii ''Headline''
   \<and> (case query_selector untitled_page (detail_titleSelector (detailPage (small_site None))) of
         Inr None \<Rightarrow> True | _ \<Rightarrow> False)
   \<and> (case fst (crawlDetailPage (small_web [] (\<lambda>u. untitled_page)) (small_site None)
                   (list_url headline) (Some headline) ()) of
         Inr (Some a) \<Rightarrow> title a = [] \<and> content a = Some (ascii ''Body text'')
       | _ \<Rightarrow> False)
   \<and> fst (crawl (small_web [item ''Headline'' ''/a1''] (\<lambda>u. untitled_page)) (small_site None) ())
       = Inr []"
  by code_simp

lemma selector_mode_content:
  assumes "useReadability (detailPage config) \<noteq> Some True"
  shows "extract_content config pg =
           Inr (case page_text pg (contentSelector (detailPage config)) of
                  Inl e \<Rightarrow> None | Inr t \<Rightarrow> t)"
  using assms by (simp add: extract_content_def)

lemma readability_ignores_selector:
  assumes "useReadability (detailPage config) = Some True"
  shows "crawlDetailPage rt (config\<lparr>detailPage := (detailPage config)\<lparr>contentSelector := s\<rparr>\<rparr>)
           articleUrl la w = crawlDetailPage rt config articleUrl la w"
  using assms
  by (simp add: crawlDetailPage_def extract_article_def extract_content_def extract_title_def
      extract_author_def extract_date_def
      cong: sum.case_cong prod.case_cong nav.case_cong option.case_cong if_cong)

text \<open>
  C8 (counterexample). In selector mode, on a detail page where no element matches the
  content selector, the article is returned with its content unset: the field is not
  the empty string.
\<close>

theorem content_unset_counterexample:
  "useReadability (detailPage (small_site None)) = None
   \<and> (case fst (crawlDetailPage (small_web [] (\<lambda>u. list_page [])) (small_site None)
                   (ascii ''http://e.com/a1'') None ()) of
         Inr (Some a) \<Rightarrow> content a = None \<and> content a \<noteq> Some []
       | _ \<Rightarrow> False)"
  by code_simp

text \<open>
  C8 (amended). On a loaded detail page in selector mode (\<open>useReadability\<close> unset or
  false) the extraction always returns an article, never an exception: its content is
  the trimmed text of the first element matching \<open>contentSelector\<close>, and when no element
  matches or the query or the reading of the text throws, the content is left unset
  (not assigned the empty string), which reads as the empty string through
  \<open>article.content || ""\<close>. In Readability mode the result does not depend on
  \<open>contentSelector\<close>.
\<close>

theorem content_extractor_modes:
  assumes nav: "visit rt articleUrl w = (Opened (Inr pg) True, w')"
  shows "(useReadability (detailPage config) \<noteq> Some True \<longrightarrow>
           (\<exists>a. crawlDetailPage rt config articleUrl la w = (Inr (Some a), w')
              \<and> (\<forall>el t. query_selector pg (contentSelector (detailPage config)) = Inr (Some el)
                     \<and> textContent el = Inr (Some t) \<longrightarrow> content a = Some (trim t))
              \<and> (query_selector pg (contentSelector (detailPage config)) = Inr None
                  \<or> query_selector pg (contentSelector (detailPage config)) = Inl Error
                  \<or> (\<exists>el. query_selector pg (contentSelector (detailPage config)) = Inr (Some el)
                         \<and> textContent el = Inl Error)
                  \<longrightarrow> content a = None \<and> content_text a = [])))
       \<and> (useReadability (detailPage config) = Some True \<longrightarrow>
            crawlDetailPage rt (config\<lparr>detailPage := (detailPage config)\<lparr>contentSelector := s\<rparr>\<rparr>)
              articleUrl la w = crawlDetailPage rt config articleUrl la w)"
proof (intro conjI impI)
  assume sel: "useReadability (detailPage config) \<noteq> Some True"
  let ?c = "case page_text pg (contentSelector (detailPage config)) of Inl e \<Rightarrow> None | Inr t \<Rightarrow> t"
  from sel have "extract_content config pg = Inr ?c" by (rule selector_mode_content)
  with nav obtain a where a: "crawlDetailPage rt config articleUrl la w = (Inr (Some a), w')"
    and c: "content a = ?c"
    by (simp add: crawlDetailPage_def extract_article_def)
  have "content a = Some (trim t)"
    if "query_selector pg (contentSelector (detailPage config)) = Inr (Some el)
        \<and> textContent el = Inr (Some t)" for el t
    using that c by (simp add: page_text_def text_of_def)
  moreover have "content a = None \<and> content_text a = []"
    if "query_selector pg (contentSelector (detailPage config)) = Inr None
        \<or> query_selector pg (contentSelector (detailPage config)) = Inl Error
        \<or> (\<exists>el. query_selector pg (contentSelector (detailPage config)) = Inr (Some el)
               \<and> textContent el = Inl Error)"
    using that c by (auto simp: page_text_def text_of_def content_text_def str_or_def)
  ultimately show "\<exists>a. crawlDetailPage rt config articleUrl la w = (Inr (Some a), w')
      \<and> (\<forall>el t. query_selector pg (contentSelector (detailPage config)) = Inr (Some el)
             \<and> textContent el = Inr (Some t) \<longrightarrow> content a = Some (trim t))
      \<and> (query_selector pg (contentSelector (detailPage config)) = Inr None
          \<or> query_selector pg (contentSelector (detailPage config)) = Inl Error
          \<or> (\<exists>el. query_selector pg (contentSelector (detailPage config)) = Inr (Some el)
                 \<and> textContent el = Inl Error)
          \<longrightarrow> content a = None \<and> content_text a = [])"
    using a by blast
next
  assume "useReadability (detailPage config) = Some True"
  then show "crawlDetailPage rt (config\<lparr>detailPage := (detailPage config)\<lparr>contentSelector := s\<rparr>\<rparr>)
      articleUrl la w = crawlDetailPage rt config articleUrl la w"
    by (rule readability_ignores_selector)
qed


lemma padded_page_eval:
  "trim (ascii '' Body '') = ascii ''Body''"
  "starts_with (ascii ''http://e.com/a1'') (ascii ''http://e.com/a'')"
  "ascii ''.body'' \<noteq> ascii ''h1''"
  by code_simp+

theorem content_extractor_modes_witness:
  "visit (small_web [] (\<lambda>u. padded_page)) (ascii ''http://e.com/a1'') ()
     = (Opened (Inr padded_page) True, ())
   \<and> useReadability (detailPage (small_site None)) \<noteq> Some True
   \<and> (\<exists>a. crawlDetailPage (small_web [] (\<lambda>u. padded_page)) (small_site None)
              (ascii ''http://e.com/a1'') None () = (Inr (Some a), ())
          \<and> content a = Some (ascii ''Body''))
   \<and> (\<exists>a. crawlDetailPage (small_web [] (\<lambda>u. list_page [])) (small_site None)
              (ascii ''http://e.com/a1'') None () = (Inr (Some a), ())
          \<and> content a = None \<and> content_text a = [])
   \<and> useReadability (detailPage readable_site) = Some True
   \<and> crawlDetailPage (small_web [] (\<lambda>u. padded_page))
         (readable_site\<lparr>detailPage := (detailPage readable_site)\<lparr>contentSelector := ascii ''#none''\<rparr>\<rparr>)
         (ascii ''http://e.com/a1'') None ()
       = crawlDetailPage (small_web [] (\<lambda>u. padded_page)) readable_site
           (ascii ''http://e.com/a1'') None ()"
proof -
  let ?u = "ascii ''http://e.com/a1''"
  let ?cfg = "small_site None"
  have mode: "useReadability (detailPage ?cfg) \<noteq> Some True"
    by (simp add: small_site_def)
  have sel: "contentSelector (detailPage ?cfg) = ascii ''.body''"
    by (simp add: small_site_def)
  have nav1: "visit (small_web [] (\<lambda>u. padded_page)) ?u () = (Opened (Inr padded_page) True, ())"
    using padded_page_eval(2) by (simp add: small_web_def)
  have q1: "query_selector padded_page (contentSelector (detailPage ?cfg))
      = Inr (Some (leaf '' Body ''))"
    using padded_page_eval(3) by (simp add: sel padded_page_def detail_page_def)
  have t1: "textContent (leaf '' Body '') = Inr (Some (ascii '' Body ''))"
    by (simp add: leaf_def)
  from content_extractor_modes [OF nav1, where config = ?cfg and la = None] mode q1 t1
  have one: "\<exists>a. crawlDetailPage (small_web [] (\<lambda>u. padded_page)) ?cfg ?u None ()
        = (Inr (Some a), ()) \<and> content a = Some (ascii ''Body'')"
    by (auto simp: padded_page_eval(1))
  have nav2: "visit (small_web [] (\<lambda>u. list_page [])) ?u () = (Opened (Inr (list_page [])) True, ())"
    using padded_page_eval(2) by (simp add: small_web_def)
  have q2: "query_selector (list_page []) (contentSelector (detailPage ?cfg)) = Inr None"
    by (simp add: list_page_def)
  from content_extractor_modes [OF nav2, where config = ?cfg and la = None] mode q2
  have two: "\<exists>a. crawlDetailPage (small_web [] (\<lambda>u. list_page [])) ?cfg ?u None ()
        = (Inr (Some a), ()) \<and> content a = None \<and> content_text a = []"
    by auto
  have mode3: "useReadability (detailPage readable_site) = Some True"
    by (simp add: readable_site_def)
  from content_extractor_modes [OF nav1, where config = readable_site and s = "ascii ''#none''"
      and la = None] mode3
  have three: "crawlDetailPage (small_web [] (\<lambda>u. padded_page))
         (readable_site\<lparr>detailPage := (detailPage readable_site)\<lparr>contentSelector := ascii ''#none''\<rparr>\<rparr>)
         ?u None ()
       = crawlDetailPage (small_web [] (\<lambda>u. padded_page)) readable_site ?u None ()"
    by blast
  from nav1 mode one two mode3 three show ?thesis by blast
qed

section \<open>Properties of the summarization client\<close>


lemma generateSummary_skips:
  assumes "apiKey svc = [] \<or> \<not> truthy_str (content article)"
  shows "generateSummary be svc article st = Some (None, st)"
  using assms by (subst generateSummary.simps) auto

lemma generateSummary_calls:
  assumes "generateSummary be svc article st = Some y"
  shows "set (fst (snd y)) \<subseteq> set (fst st) \<union> {buildSummaryPrompt be article}"
proof (rule generateSummary.raw_induct
    [where P = "\<lambda>be svc article st y.
       set (fst (snd y)) \<subseteq> set (fst st) \<union> {buildSummaryPrompt be article}", OF _ assms],
    goal_cases)
  case (1 gs be svc article st y)
  show ?case
  proof (cases "apiKey svc = [] \<or> \<not> truthy_str (content article)")
    case True
    with 1(2) show ?thesis by (auto split: if_splits)
  next
    case False
    obtain r b' where p: "post be (buildSummaryPrompt be article) (snd st) = (r, b')"
      by (cases "post be (buildSummaryPrompt be article) (snd st)")
    show ?thesis
    proof (cases r)
      case (Summary_Text t)
      with 1(2) False p show ?thesis by auto
    next
      case Rate_Limited
      with 1(2) False p
      have "gs be svc article (fst st @ [buildSummaryPrompt be article], b') = Some y"
        by simp
      then have "set (fst (snd y))
          \<subseteq> set (fst (fst st @ [buildSummaryPrompt be article], b')) \<union> {buildSummaryPrompt be article}"
        by (rule 1(1))
      then show ?thesis by auto
    next
      case Failed
      with 1(2) False p show ?thesis by auto
    qed
  qed
qed

lemma summaryLoop_without_key:
  assumes "apiKey svc = []"
  shows "summaryLoop be svc articles st = Some st"
proof (induction articles)
  case Nil
  show ?case by simp
next
  case (Cons a articles)
  obtain m calls b where st: "st = (m, calls, b)" by (cases st)
  from assms have "generateSummary be svc a (calls, b) = Some (None, calls, b)"
    by (simp add: generateSummary_skips)
  with Cons st show ?case by (simp add: truthy_str_def)
qed

lemma summaryLoop_filter:
  "summaryLoop be svc (filter (\<lambda>a. truthy_str (content a)) articles) st =
   summaryLoop be svc articles st"
proof (induction articles arbitrary: st)
  case Nil
  show ?case by simp
next
  case (Cons a articles)
  obtain m calls b where st: "st = (m, calls, b)" by (cases st)
  show ?case
  proof (cases "truthy_str (content a)")
    case True
    with Cons st show ?thesis by (simp split: option.splits)
  next
    case False
    then have "generateSummary be svc a (calls, b) = Some (None, calls, b)"
      by (simp add: generateSummary_skips)
    with False Cons st show ?thesis by (simp add: truthy_str_def)
  qed
qed

lemma summaryLoop_sources:
  assumes "summaryLoop be svc articles (m, calls, b) = Some (m', calls', b')"
  shows "dom m' \<subseteq> dom m \<union> article_url ` {a \<in> set articles. truthy_str (content a)}
       \<and> set calls' \<subseteq> set calls \<union> buildSummaryPrompt be ` {a \<in> set articles. truthy_str (content a)}"
  using assms
proof (induction articles arbitrary: m calls b)
  case Nil
  then show ?case by simp
next
  case (Cons a articles)
  show ?case
  proof (cases "article_url a = []")
    case True
    with Cons.prems have "summaryLoop be svc articles (m, calls, b) = Some (m', calls', b')"
      by simp
    from Cons.IH [OF this] show ?thesis by auto
  next
    case url: False
    show ?thesis
    proof (cases "truthy_str (content a)")
      case False
      then have "generateSummary be svc a (calls, b) = Some (None, calls, b)"
        by (simp add: generateSummary_skips)
      with url Cons.prems have "summaryLoop be svc articles (m, calls, b) = Some (m', calls', b')"
        by (simp add: truthy_str_def)
      from Cons.IH [OF this] show ?thesis by auto
    next
      case True
      from url Cons.prems obtain res calls1 b1 where
        g: "generateSummary be svc a (calls, b) = Some (res, calls1, b1)"
        and rest: "summaryLoop be svc articles
          (if truthy_str res then m(article_url a \<mapsto> the res) else m, calls1, b1)
            = Some (m', calls', b')"
        by (auto split: option.splits)
      from generateSummary_calls [OF g]
      have c1: "set calls1 \<subseteq> set calls \<union> {buildSummaryPrompt be a}" by simp
      have d1: "dom (if truthy_str res then m(article_url a \<mapsto> the res) else m)
          \<subseteq> dom m \<union> {article_url a}"
        by auto
      from Cons.IH [OF rest] c1 d1 True show ?thesis
        by (auto simp del: fun_upd_apply dom_fun_upd) blast+
    qed
  qed
qed


text \<open>
  C9. Without an API credential the client makes no call and returns the empty mapping
  for every batch. For every batch, articles with empty content make no difference to
  what the client does: it behaves as on the batch without them. When it returns, every
  key of the mapping is the URL of an article of the batch with non-empty content, and
  every prompt posted to the API is the prompt of such an article: an article with
  empty content is never posted and adds no key.
\<close>

theorem summarize_skips_empty_content:
  "(apiKey svc = [] \<longrightarrow> generateSummaryBatch be svc articles b = Some (Map.empty, [], b))
   \<and> generateSummaryBatch be svc articles b
       = generateSummaryBatch be svc (filter (\<lambda>a. truthy_str (content a)) articles) b
   \<and> (generateSummaryBatch be svc articles b = Some (m, calls, b') \<longrightarrow>
         (\<forall>u \<in> dom m. \<exists>a \<in> set articles. article_url a = u \<and> truthy_str (content a))
       \<and> (\<forall>p \<in> set calls. \<exists>a \<in> set articles.
              truthy_str (content a) \<and> p = buildSummaryPrompt be a))"
proof (intro conjI impI)
  assume "apiKey svc = []"
  then show "generateSummaryBatch be svc articles b = Some (Map.empty, [], b)"
    by (simp add: generateSummaryBatch_def summaryLoop_without_key)
next
  show "generateSummaryBatch be svc articles b
      = generateSummaryBatch be svc (filter (\<lambda>a. truthy_str (content a)) articles) b"
    by (simp add: generateSummaryBatch_def summaryLoop_filter)
next
  assume "generateSummaryBatch be svc articles b = Some (m, calls, b')"
  then have "summaryLoop be svc articles (Map.empty, [], b) = Some (m, calls, b')"
    by (simp add: generateSummaryBatch_def)
  from summaryLoop_sources [OF this]
  have keys: "dom m \<subseteq> article_url ` {a \<in> set articles. truthy_str (content a)}"
    and posts: "set calls \<subseteq> buildSummaryPrompt be ` {a \<in> set articles. truthy_str (content a)}"
    by simp_all
  from keys show "\<forall>u \<in> dom m. \<exists>a \<in> set articles. article_url a = u \<and> truthy_str (content a)"
    by blast
  from posts show "\<forall>p \<in> set calls. \<exists>a \<in> set articles.
      truthy_str (content a) \<and> p = buildSummaryPrompt be a"
    by blast
qed

lemma sample_batch_eval:
  "map_option (\<lambda>(m, calls, b). (map m (map article_url sample_batch), length calls))
     (generateSummaryBatch echo_backend (client ''key'') sample_batch ())
   = Some ([Some (ascii ''summary''), None, None], 1)"
  by code_simp

theorem summarize_skips_empty_content_witness:
  "apiKey (client []) = []
   \<and> generateSummaryBatch echo_backend (client []) sample_batch () = Some (Map.empty, [], ())
   \<and> generateSummaryBatch echo_backend (client ''key'') sample_batch ()
       = generateSummaryBatch echo_backend (client ''key'')
           (filter (\<lambda>a. truthy_str (content a)) sample_batch) ()
   \<and> (\<exists>m calls. generateSummaryBatch echo_backend (client ''key'') sample_batch ()
                    = Some (m, calls, ())
          \<and> m (ascii ''http://e.com/a1'') = Some (ascii ''summary'')
          \<and> m (ascii ''http://e.com/a2'') = None \<and> m (ascii ''http://e.com/a3'') = None
          \<and> length calls = 1)"
proof -
  have key: "apiKey (client []) = []"
    by (simp add: client_def ascii_def)
  note fact = summarize_skips_empty_content
  from fact [of "client []" echo_backend sample_batch "()"] key
  have none: "generateSummaryBatch echo_backend (client []) sample_batch () = Some (Map.empty, [], ())"
    by blast
  from fact [of "client ''key''" echo_backend sample_batch "()"]
  have filt: "generateSummaryBatch echo_backend (client ''key'') sample_batch ()
       = generateSummaryBatch echo_backend (client ''key'')
           (filter (\<lambda>a. truthy_str (content a)) sample_batch) ()"
    by blast
  obtain r where r: "generateSummaryBatch echo_backend (client ''key'') sample_batch () = Some r"
    using sample_batch_eval
    by (cases "generateSummaryBatch echo_backend (client ''key'') sample_batch ()") simp_all
  obtain m calls where mc: "r = (m, calls, ())"
    by (cases r) auto
  from r mc
  have run: "generateSummaryBatch echo_backend (client ''key'') sample_batch () = Some (m, calls, ())"
    by simp
  from sample_batch_eval have
    vals: "map m (map article_url sample_batch) = [Some (ascii ''summary''), None, None]"
      "length calls = 1"
    by (simp_all only: run option.map prod.case option.inject prod.inject)
  from vals(1) have "m (ascii ''http://e.com/a1'') = Some (ascii ''summary'')"
    "m (ascii ''http://e.com/a2'') = None" "m (ascii ''http://e.com/a3'') = None"
    by (simp_all add: sample_batch_def article_of_def)
  with run vals(2) key none filt show ?thesis by blast
qed

end
